theory Spec2Isabelle
  imports Main "HOL-Library.List_Lexorder" "HOL-Library.Char_ord"
begin

section \<open>Values, exceptions and dictionaries\<close>

text \<open>
  The module \<^verbatim>\<open>core/domain/exp_domain.py\<close> is Python 2. Its untyped documents (the
  parsed YAML of an exploration, customization arguments, rule inputs) are trees of
  Python values. A dict is an association list in iteration order whose keys are values
  themselves, since Python accepts any hashable key and the code tests
  \<^verbatim>\<open>isinstance(arg_name, basestring)\<close> on keys. Floats are left out.
\<close>

datatype json =
    JNull
  | JBool bool
  | JInt int
  | JStr string
  | JList "json list"
  | JDict "(json \<times> json) list"

type_synonym pydict = "(json \<times> json) list"

text \<open>
  An exception is its class and its message. Where the source formats a value that is not
  a string into the message (\<^verbatim>\<open>'%s' % some_dict\<close>), the message keeps the fixed text only.
\<close>

datatype error =
    Exception string
  | ValidationError string
  | ValueError string
  | KeyError json
  | AttributeError string
  | UnboundLocalError string
  | ExternalError string

text \<open>
  \<^verbatim>\<open>UnboundLocalError\<close> is a subclass of \<^verbatim>\<open>NameError\<close>: an \<^verbatim>\<open>except NameError\<close> clause
  catches it.
\<close>

fun is_NameError :: "error \<Rightarrow> bool" where
  "is_NameError (UnboundLocalError _) = True"
| "is_NameError _ = False"

text \<open>What \<^verbatim>\<open>logging.warning\<close> receives, kept as data.\<close>

datatype warning =
    UnsupportedCustomizationArg string string json
  | UnrecognizedRuleInputs string "json list"

definition dict_keys :: "pydict \<Rightarrow> json list" where
  "dict_keys d = map fst d"

definition dict_get :: "pydict \<Rightarrow> json \<Rightarrow> json option" where
  "dict_get d k = map_of d k"

fun dict_set :: "pydict \<Rightarrow> json \<Rightarrow> json \<Rightarrow> pydict" where
  "dict_set [] k v = [(k, v)]"
| "dict_set ((k', v') # d) k v =
     (if k' = k then (k, v) # d else (k', v') # dict_set d k v)"


section \<open>Customization arguments\<close>







section \<open>Value objects of a state\<close>

text \<open>
  The classes of the module, each a record of the fields its \<^verbatim>\<open>__init__\<close> assigns. The
  dict form that \<^verbatim>\<open>to_dict\<close> writes and \<^verbatim>\<open>from_dict\<close> reads has the same fields
  under the same keys, so a well-formed dict of a class is a value of the same record.
  \<^verbatim>\<open>html_cleaner.clean\<close> is outside this module and is a parameter.
\<close>

record param_change =
  pc_name :: string
  pc_generator_id :: string
  pc_customization_args :: json

record outcome =
  dest :: string
  feedback :: "string list"
  param_changes :: "param_change list"

record rule_spec =
  rule_type :: string
  inputs :: json

record answer_group =
  ag_outcome :: outcome
  rule_specs :: "rule_spec list"
  correct :: bool

record trigger_instance =
  trigger_type :: string
  trigger_customization_args :: json

record fallback =
  trigger :: trigger_instance
  fb_outcome :: outcome

record hint =
  hint_text :: string

record interaction_instance =
  interaction_id :: "string option"
  customization_args :: json
  answer_groups :: "answer_group list"
  default_outcome :: "outcome option"
  confirmed_unclassified_answers :: "json list"
  fallbacks :: "fallback list"
  hints :: "hint list"
  solution :: json

record subtitled_html =
  html :: string
  audio_translations :: json

record state =
  content :: subtitled_html
  state_param_changes :: "param_change list"
  interaction :: interaction_instance
  classifier_model_id :: "string option"

text \<open>
  \<^verbatim>\<open>Outcome.__init__\<close> cleans every feedback item; \<^verbatim>\<open>Outcome.from_dict\<close> rebuilds the
  parameter changes from their three fields and calls the constructor.
\<close>

definition Outcome_init ::
  "(string \<Rightarrow> string) \<Rightarrow> string \<Rightarrow> string list \<Rightarrow> param_change list \<Rightarrow> outcome" where
  "Outcome_init clean d fb pcs =
     \<lparr>dest = d, feedback = map clean fb, param_changes = pcs\<rparr>"

definition Outcome_from_dict :: "(string \<Rightarrow> string) \<Rightarrow> outcome \<Rightarrow> outcome" where
  "Outcome_from_dict clean outcome_dict =
     Outcome_init clean (dest outcome_dict) (feedback outcome_dict)
       (map (\<lambda>pc. \<lparr>pc_name = pc_name pc, pc_generator_id = pc_generator_id pc,
                    pc_customization_args = pc_customization_args pc\<rparr>)
            (param_changes outcome_dict))"

definition TriggerInstance_from_dict :: "trigger_instance \<Rightarrow> trigger_instance" where
  "TriggerInstance_from_dict trigger_dict =
     \<lparr>trigger_type = trigger_type trigger_dict,
      trigger_customization_args = trigger_customization_args trigger_dict\<rparr>"

definition Fallback_from_dict :: "(string \<Rightarrow> string) \<Rightarrow> fallback \<Rightarrow> fallback" where
  "Fallback_from_dict clean fallback_dict =
     \<lparr>trigger = TriggerInstance_from_dict (trigger fallback_dict),
      fb_outcome = Outcome_from_dict clean (fb_outcome fallback_dict)\<rparr>"

definition Hint_init :: "(string \<Rightarrow> string) \<Rightarrow> string \<Rightarrow> hint" where
  "Hint_init clean text = \<lparr>hint_text = clean text\<rparr>"

definition Hint_to_dict :: "hint \<Rightarrow> hint" where
  "Hint_to_dict h = \<lparr>hint_text = hint_text h\<rparr>"

definition Hint_from_dict :: "(string \<Rightarrow> string) \<Rightarrow> hint \<Rightarrow> hint" where
  "Hint_from_dict clean hint_dict = Hint_init clean (hint_text hint_dict)"

subsection \<open>Outcomes of an interaction\<close>

definition get_all_non_fallback_outcomes :: "interaction_instance \<Rightarrow> outcome list" where
  "get_all_non_fallback_outcomes i =
     map ag_outcome (answer_groups i)
       @ (case default_outcome i of None \<Rightarrow> [] | Some d \<Rightarrow> [d])"

definition get_all_outcomes :: "interaction_instance \<Rightarrow> outcome list" where
  "get_all_outcomes i = get_all_non_fallback_outcomes i @ map fb_outcome (fallbacks i)"

text \<open>
  \<^verbatim>\<open>return self.id and Registry.get_interaction_by_id(self.id).is_terminal\<close>: an id that
  is \<^verbatim>\<open>None\<close> or empty is not terminal and the registry is not asked. The registry is
  outside this module: it is a parameter giving the \<^verbatim>\<open>is_terminal\<close> flag of each id it
  knows, and the lookup of any other id raises \<^verbatim>\<open>KeyError\<close> (which
  \<^verbatim>\<open>InteractionInstance.validate\<close> catches).
\<close>

definition is_terminal ::
  "(string \<Rightarrow> bool option) \<Rightarrow> interaction_instance \<Rightarrow> error + bool" where
  "is_terminal registry i =
     (case interaction_id i of
        None \<Rightarrow> Inr False
      | Some iid \<Rightarrow>
          if iid = [] then Inr False
          else (case registry iid of
                  None \<Rightarrow> Inl (KeyError (JStr iid))
                | Some t \<Rightarrow> Inr t))"

subsection \<open>Editing the fallbacks and hints of a state\<close>

text \<open>
  \<^verbatim>\<open>
  def update_interaction_hints(self, hints_list):
      if not isinstance(hints_list, list): raise Exception(...)
      self.interaction.hints = [Hint.from_dict(hint_dict) for hint_dict in hints_list]
  \<close>
  The argument is a list by its type here.
\<close>

definition update_interaction_hints :: "(string \<Rightarrow> string) \<Rightarrow> state \<Rightarrow> hint list \<Rightarrow> state" where
  "update_interaction_hints clean st hints_list =
     st\<lparr>interaction := (interaction st)\<lparr>hints := map (Hint_from_dict clean) hints_list\<rparr>\<rparr>"

text \<open>
  The loop of \<^verbatim>\<open>update_interaction_fallbacks\<close> that fills \<^verbatim>\<open>hint_list\<close>: a fallback
  whose outcome has feedback contributes \<^verbatim>\<open>Hint(fallback.outcome.feedback[0]).to_dict()\<close>.
\<close>

fun fallbacks_hint_list :: "(string \<Rightarrow> string) \<Rightarrow> fallback list \<Rightarrow> hint list" where
  "fallbacks_hint_list clean [] = []"
| "fallbacks_hint_list clean (fb # rest) =
     (case feedback (fb_outcome fb) of
        [] \<Rightarrow> fallbacks_hint_list clean rest
      | first # _ \<Rightarrow> Hint_to_dict (Hint_init clean first) # fallbacks_hint_list clean rest)"

text \<open>
  \<^verbatim>\<open>
  def update_interaction_fallbacks(self, fallbacks_list):
      if not isinstance(fallbacks_list, list): raise Exception(...)
      self.interaction.fallbacks = [
          Fallback.from_dict(fallback_dict) for fallback_dict in fallbacks_list]
      if self.interaction.fallbacks:
          hint_list = []
          for fallback in self.interaction.fallbacks: ...
      self.update_interaction_hints(hint_list)
  \<close>
  The method works on the state in place, so the model returns the state as the call
  leaves it together with the exception, if one was raised. With an empty list the name
  \<^verbatim>\<open>hint_list\<close> is read before any assignment to it.
\<close>

definition update_interaction_fallbacks ::
  "(string \<Rightarrow> string) \<Rightarrow> state \<Rightarrow> fallback list \<Rightarrow> state \<times> error option" where
  "update_interaction_fallbacks clean st fallbacks_list =
     (let new_fallbacks = map (Fallback_from_dict clean) fallbacks_list;
          st1 = st\<lparr>interaction := (interaction st)\<lparr>fallbacks := new_fallbacks\<rparr>\<rparr>
      in if new_fallbacks \<noteq> []
         then (update_interaction_hints clean st1 (fallbacks_hint_list clean new_fallbacks), None)
         else (st1, Some (UnboundLocalError
                 ''local variable 'hint_list' referenced before assignment'')))"

section \<open>Gadgets and the exploration\<close>

record gadget_instance =
  gadget_type :: string
  gadget_name :: string
  visible_in_states :: "string list"
  gadget_customization_args :: json

record skin_instance =
  skin_id :: string
  panel_contents_dict :: "(string \<times> gadget_instance list) list"

text \<open>
  The \<^verbatim>\<open>states\<close> dict is an association list from state names to states, in the order
  the dict iterates; as a dict it has no key twice, which the theorems that need it
  assume as \<open>distinct (map fst (states e))\<close>. Every state owns its outcomes and every panel
  its gadgets, as \<^verbatim>\<open>from_dict\<close>, \<^verbatim>\<open>create_default_state\<close> and the deep copy of
  \<^verbatim>\<open>rename_state\<close> build them, so writing a field of one object changes that object alone.
\<close>

record exploration =
  exploration_id :: string
  title :: string
  category :: string
  objective :: string
  language_code :: string
  tags :: "string list"
  blurb :: string
  author_notes :: string
  states_schema_version :: int
  init_state_name :: string
  skin_instance :: skin_instance
  states :: "(string \<times> state) list"
  param_specs :: pydict
  exp_param_changes :: "param_change list"
  version :: int

definition state_names :: "exploration \<Rightarrow> string list" where
  "state_names e = map fst (states e)"

text \<open>
  Assigning \<^verbatim>\<open>outcome.dest\<close> on the objects that \<^verbatim>\<open>get_all_outcomes()\<close> returns writes
  into the answer groups, the default outcome and the fallbacks of the interaction.
\<close>

definition map_all_outcomes ::
  "(outcome \<Rightarrow> outcome) \<Rightarrow> interaction_instance \<Rightarrow> interaction_instance" where
  "map_all_outcomes f i =
     i\<lparr>answer_groups := map (\<lambda>g. g\<lparr>ag_outcome := f (ag_outcome g)\<rparr>) (answer_groups i),
       default_outcome := map_option f (default_outcome i),
       fallbacks := map (\<lambda>fb. fb\<lparr>fb_outcome := f (fb_outcome fb)\<rparr>) (fallbacks i)\<rparr>"

text \<open>\<^verbatim>\<open>if outcome.dest == old: outcome.dest = new\<close>, over all outcomes of one state.\<close>

definition redirect :: "string \<Rightarrow> string \<Rightarrow> outcome \<Rightarrow> outcome" where
  "redirect old new out = (if dest out = old then out\<lparr>dest := new\<rparr> else out)"

definition redirect_state :: "string \<Rightarrow> string \<Rightarrow> state \<Rightarrow> state" where
  "redirect_state old new st =
     st\<lparr>interaction := map_all_outcomes (redirect old new) (interaction st)\<rparr>"



text \<open>
  \<^verbatim>\<open>
  def delete_state(self, state_name):
      if state_name not in self.states: raise ValueError(...)
      if self.init_state_name == state_name: raise ValueError(...)
      for other_state_name in self.states:
          other_state = self.states[other_state_name]
          all_outcomes = other_state.interaction.get_all_outcomes()
          for outcome in all_outcomes:
              if outcome.dest == state_name:
                  outcome.dest = other_state_name
      del self.states[state_name]
  \<close>
\<close>

definition delete_state :: "exploration \<Rightarrow> string \<Rightarrow> error + exploration" where
  "delete_state e state_name =
     (if state_name \<notin> set (state_names e)
      then Inl (ValueError (''State '' @ state_name @ '' does not exist''))
      else if init_state_name e = state_name
      then Inl (ValueError ''Cannot delete initial state of an exploration.'')
      else Inr (e\<lparr>states :=
                  filter (\<lambda>(n, _). n \<noteq> state_name)
                    (map (\<lambda>(other_state_name, other_state).
                            (other_state_name,
                             redirect_state state_name other_state_name other_state))
                         (states e))\<rparr>))"

subsection \<open>Gadget visibility\<close>



text \<open>
  \<^verbatim>\<open>
  def _update_gadget_visibilities_for_deleted_state(self, state_name):
      affected_gadget_instances = (
          self._get_gadget_instances_visible_in_state(state_name))
      for gadget_instance in affected_gadget_instances:
          gadget_instance.visible_in_states.remove(state_name)
          if len(gadget_instance.visible_in_states) == 0:
              raise utils.ValidationError(...)
  \<close>
  The affected gadgets are visited panel by panel in the order of
  \<^verbatim>\<open>_get_gadget_instances_visible_in_state\<close>; the walk stops at the raise, and the lists
  are returned as the call leaves them.
\<close>

definition quoted :: "string \<Rightarrow> string" where
  "quoted s = [CHR 0x27] @ s @ [CHR 0x27]"




section \<open>Graph validators\<close>

text \<open>\<^verbatim>\<open>', '.join(names)\<close>\<close>

fun join :: "string \<Rightarrow> string list \<Rightarrow> string" where
  "join sep [] = []"
| "join sep [x] = x"
| "join sep (x # y # ys) = x @ sep @ join sep (y # ys)"

text \<open>
  The inner loop of \<^verbatim>\<open>_verify_all_states_reachable\<close>: a destination that is neither
  queued nor processed is appended to the queue.
\<close>

fun enqueue_dests :: "string list \<Rightarrow> string list \<Rightarrow> outcome list \<Rightarrow> string list" where
  "enqueue_dests processed_queue curr_queue [] = curr_queue"
| "enqueue_dests processed_queue curr_queue (out # rest) =
     enqueue_dests processed_queue
       (if dest out \<notin> set curr_queue \<and> dest out \<notin> set processed_queue
        then curr_queue @ [dest out] else curr_queue)
       rest"

text \<open>
  \<^verbatim>\<open>
  while curr_queue:
      curr_state_name = curr_queue[0]
      curr_queue = curr_queue[1:]
      if curr_state_name in processed_queue: continue
      processed_queue.append(curr_state_name)
      curr_state = self.states[curr_state_name]
      if not curr_state.interaction.is_terminal:
          all_outcomes = curr_state.interaction.get_all_outcomes()
          for outcome in all_outcomes: ...
  \<close>
  A name that is not a key of \<^verbatim>\<open>self.states\<close> raises \<^verbatim>\<open>KeyError\<close> at the lookup. The
  loop ends because every turn either shortens the queue or processes a new state.
\<close>

function reachable_loop ::
  "(string \<Rightarrow> bool option) \<Rightarrow> (string \<times> state) list \<Rightarrow> string list \<Rightarrow> string list
     \<Rightarrow> error + string list" where
  "reachable_loop registry sts processed_queue [] = Inr processed_queue"
| "reachable_loop registry sts processed_queue (curr_state_name # curr_queue) =
     (if curr_state_name \<in> set processed_queue
      then reachable_loop registry sts processed_queue curr_queue
      else (case map_of sts curr_state_name of
              None \<Rightarrow> Inl (KeyError (JStr curr_state_name))
            | Some curr_state \<Rightarrow>
                (case is_terminal registry (interaction curr_state) of
                   Inl err \<Rightarrow> Inl err
                 | Inr terminal \<Rightarrow>
                     if \<not> terminal
                     then reachable_loop registry sts (processed_queue @ [curr_state_name])
                            (enqueue_dests (processed_queue @ [curr_state_name]) curr_queue
                               (get_all_outcomes (interaction curr_state)))
                     else reachable_loop registry sts (processed_queue @ [curr_state_name])
                            curr_queue)))"
  by pat_completeness auto
termination
proof (relation "measures [\<lambda>(registry, sts, processed_queue, curr_queue).
                             card (fst ` set sts - set processed_queue),
                           \<lambda>(registry, sts, processed_queue, curr_queue).
                             length curr_queue]", goal_cases)
  case 1
  show ?case by simp
next
  case (2 registry sts processed_queue curr_state_name curr_queue)
  then show ?case by simp
next
  case (3 registry sts processed_queue curr_state_name curr_queue curr_state terminal)
  then have "curr_state_name \<in> fst ` set sts - set processed_queue"
    by (metis DiffI map_of_SomeD fst_conv image_eqI)
  then have "card (fst ` set sts - set processed_queue - {curr_state_name})
               < card (fst ` set sts - set processed_queue)"
    by (intro card_Diff1_less) auto
  moreover have "fst ` set sts - set (processed_queue @ [curr_state_name])
                   = fst ` set sts - set processed_queue - {curr_state_name}"
    by auto
  ultimately show ?case by simp
next
  case (4 registry sts processed_queue curr_state_name curr_queue curr_state terminal)
  then have "curr_state_name \<in> fst ` set sts - set processed_queue"
    by (metis DiffI map_of_SomeD fst_conv image_eqI)
  then have "card (fst ` set sts - set processed_queue - {curr_state_name})
               < card (fst ` set sts - set processed_queue)"
    by (intro card_Diff1_less) auto
  moreover have "fst ` set sts - set (processed_queue @ [curr_state_name])
                   = fst ` set sts - set processed_queue - {curr_state_name}"
    by auto
  ultimately show ?case by simp
qed

text \<open>
  \<^verbatim>\<open>
  if len(self.states) != len(processed_queue):
      unseen_states = list(set(self.states.keys()) - set(processed_queue))
      raise utils.ValidationError(
          'The following states are not reachable from the initial '
          'state: %s' % ', '.join(unseen_states))
  \<close>
  \<^verbatim>\<open>list(s)\<close> lists a set in the iteration order of its hash table; that order is the
  parameter \<open>list_of_set\<close>.
\<close>

definition verify_all_states_reachable ::
  "(string \<Rightarrow> bool option) \<Rightarrow> (string set \<Rightarrow> string list) \<Rightarrow> exploration \<Rightarrow> error + unit" where
  "verify_all_states_reachable registry list_of_set e =
     (case reachable_loop registry (states e) [] [init_state_name e] of
        Inl err \<Rightarrow> Inl err
      | Inr processed_queue \<Rightarrow>
          if length (states e) \<noteq> length processed_queue
          then Inl (ValidationError
                 (''The following states are not reachable from the initial state: ''
                  @ join '', '' (list_of_set (set (state_names e) - set processed_queue))))
          else Inr ())"

text \<open>
  The first loop of \<^verbatim>\<open>_verify_no_dead_ends\<close> queues the names of the terminal states.
\<close>

fun terminal_state_names ::
  "(string \<Rightarrow> bool option) \<Rightarrow> (string \<times> state) list \<Rightarrow> error + string list" where
  "terminal_state_names registry [] = Inr []"
| "terminal_state_names registry ((state_name, st) # rest) =
     (case is_terminal registry (interaction st) of
        Inl err \<Rightarrow> Inl err
      | Inr terminal \<Rightarrow>
          (case terminal_state_names registry rest of
             Inl err \<Rightarrow> Inl err
           | Inr q \<Rightarrow> Inr (if terminal then state_name # q else q)))"

text \<open>
  The scan of the whole states dict for one dequeued state: a state that is neither
  queued nor processed is appended when one of its non-fallback outcomes leads to the
  dequeued state.
\<close>

fun enqueue_predecessors ::
  "string \<Rightarrow> string list \<Rightarrow> string list \<Rightarrow> (string \<times> state) list \<Rightarrow> string list" where
  "enqueue_predecessors curr_state_name processed_queue curr_queue [] = curr_queue"
| "enqueue_predecessors curr_state_name processed_queue curr_queue ((state_name, st) # rest) =
     enqueue_predecessors curr_state_name processed_queue
       (if state_name \<notin> set curr_queue \<and> state_name \<notin> set processed_queue
           \<and> curr_state_name \<in> set (map dest (get_all_non_fallback_outcomes (interaction st)))
        then curr_queue @ [state_name] else curr_queue)
       rest"

function dead_end_loop ::
  "(string \<times> state) list \<Rightarrow> string list \<Rightarrow> string list \<Rightarrow> string list" where
  "dead_end_loop sts processed_queue [] = processed_queue"
| "dead_end_loop sts processed_queue (curr_state_name # curr_queue) =
     (if curr_state_name \<in> set processed_queue
      then dead_end_loop sts processed_queue curr_queue
      else dead_end_loop sts (processed_queue @ [curr_state_name])
             (enqueue_predecessors curr_state_name (processed_queue @ [curr_state_name])
                curr_queue sts))"
  by pat_completeness auto
termination
proof (relation "measures [\<lambda>(sts, processed_queue, curr_queue).
                             card ((fst ` set sts \<union> set curr_queue) - set processed_queue),
                           \<lambda>(sts, processed_queue, curr_queue). length curr_queue]")
  have sub: "set (enqueue_predecessors c p q sts) \<subseteq> set q \<union> fst ` set sts"
    for c p q and sts :: "(string \<times> state) list"
    by (induction c p q sts rule: enqueue_predecessors.induct) auto
  show "wf (measures [\<lambda>(sts, processed_queue, curr_queue).
                        card ((fst ` set sts \<union> set curr_queue) - set processed_queue),
                      \<lambda>(sts, processed_queue, curr_queue). length curr_queue])"
    by simp
  show "((sts, processed_queue, curr_queue), (sts, processed_queue, c # curr_queue))
          \<in> measures [\<lambda>(sts, processed_queue, curr_queue).
                        card ((fst ` set sts \<union> set curr_queue) - set processed_queue),
                      \<lambda>(sts, processed_queue, curr_queue). length curr_queue]"
    if "c \<in> set processed_queue"
    for sts :: "(string \<times> state) list" and processed_queue c curr_queue
  proof -
    have "(fst ` set sts \<union> set curr_queue) - set processed_queue
            = (fst ` set sts \<union> set (c # curr_queue)) - set processed_queue"
      using that by auto
    then show ?thesis by simp
  qed
  show "((sts, processed_queue @ [c],
          enqueue_predecessors c (processed_queue @ [c]) curr_queue sts),
         (sts, processed_queue, c # curr_queue))
          \<in> measures [\<lambda>(sts, processed_queue, curr_queue).
                        card ((fst ` set sts \<union> set curr_queue) - set processed_queue),
                      \<lambda>(sts, processed_queue, curr_queue). length curr_queue]"
    if "c \<notin> set processed_queue"
    for sts :: "(string \<times> state) list" and processed_queue c curr_queue
  proof -
    have "(fst ` set sts \<union> set (enqueue_predecessors c (processed_queue @ [c]) curr_queue sts))
             - set (processed_queue @ [c])
          \<subset> (fst ` set sts \<union> set (c # curr_queue)) - set processed_queue"
      using that sub [of c "processed_queue @ [c]" curr_queue sts] by auto
    then have "card ((fst ` set sts
                       \<union> set (enqueue_predecessors c (processed_queue @ [c]) curr_queue sts))
                     - set (processed_queue @ [c]))
               < card ((fst ` set sts \<union> set (c # curr_queue)) - set processed_queue)"
      by (intro psubset_card_mono) auto
    then show ?thesis by simp
  qed
qed

text \<open>
  \<^verbatim>\<open>
  if len(self.states) != len(processed_queue):
      dead_end_states = list(set(self.states.keys()) - set(processed_queue))
      raise utils.ValidationError(
          'It is impossible to complete the exploration from the '
          'following states: %s' % ', '.join(dead_end_states))
  \<close>
\<close>

definition verify_no_dead_ends ::
  "(string \<Rightarrow> bool option) \<Rightarrow> (string set \<Rightarrow> string list) \<Rightarrow> exploration \<Rightarrow> error + unit" where
  "verify_no_dead_ends registry list_of_set e =
     (case terminal_state_names registry (states e) of
        Inl err \<Rightarrow> Inl err
      | Inr curr_queue \<Rightarrow>
          (let processed_queue = dead_end_loop (states e) [] curr_queue
           in if length (states e) \<noteq> length processed_queue
              then Inl (ValidationError
                     (''It is impossible to complete the exploration from the ''
                      @ ''following states: ''
                      @ join '', '' (list_of_set (set (state_names e) - set processed_queue))))
              else Inr ()))"

section \<open>Schema migration of the YAML form\<close>

text \<open>
  Python 2 compares values of different types: \<^verbatim>\<open>None\<close> is below everything, a number
  (a bool is the number 0 or 1) is below every string, list and dict, and numbers compare
  by value. The three comparisons the driver and its callers make against an integer
  constant are written out.
\<close>

fun py_num :: "json \<Rightarrow> int option" where
  "py_num (JInt n) = Some n"
| "py_num (JBool b) = Some (if b then 1 else 0)"
| "py_num _ = None"

definition int_le_py :: "int \<Rightarrow> json \<Rightarrow> bool" where
  "int_le_py k v =
     (case v of JNull \<Rightarrow> False
      | _ \<Rightarrow> (case py_num v of Some n \<Rightarrow> k \<le> n | None \<Rightarrow> True))"

definition py_le_int :: "json \<Rightarrow> int \<Rightarrow> bool" where
  "py_le_int v k =
     (case v of JNull \<Rightarrow> True
      | _ \<Rightarrow> (case py_num v of Some n \<Rightarrow> n \<le> k | None \<Rightarrow> False))"

definition py_eq_int :: "json \<Rightarrow> int \<Rightarrow> bool" where
  "py_eq_int v k = (py_num v = Some k)"

definition CURRENT_EXP_SCHEMA_VERSION :: int where
  "CURRENT_EXP_SCHEMA_VERSION = 15"

definition LAST_UNTITLED_SCHEMA_VERSION :: int where
  "LAST_UNTITLED_SCHEMA_VERSION = 9"

text \<open>
  The fourteen conversion steps \<^verbatim>\<open>_convert_vN_dict_to_v(N+1)_dict\<close> are the parameters of
  the driver: each takes the exploration dict and returns it converted, or raises. The
  step from v9 also takes the title and the category.
\<close>

record converters =
  convert_v1_dict_to_v2_dict :: "json \<Rightarrow> error + json"
  convert_v2_dict_to_v3_dict :: "json \<Rightarrow> error + json"
  convert_v3_dict_to_v4_dict :: "json \<Rightarrow> error + json"
  convert_v4_dict_to_v5_dict :: "json \<Rightarrow> error + json"
  convert_v5_dict_to_v6_dict :: "json \<Rightarrow> error + json"
  convert_v6_dict_to_v7_dict :: "json \<Rightarrow> error + json"
  convert_v7_dict_to_v8_dict :: "json \<Rightarrow> error + json"
  convert_v8_dict_to_v9_dict :: "json \<Rightarrow> error + json"
  convert_v9_dict_to_v10_dict :: "json \<Rightarrow> json \<Rightarrow> json \<Rightarrow> error + json"
  convert_v10_dict_to_v11_dict :: "json \<Rightarrow> error + json"
  convert_v11_dict_to_v12_dict :: "json \<Rightarrow> error + json"
  convert_v12_dict_to_v13_dict :: "json \<Rightarrow> error + json"
  convert_v13_dict_to_v14_dict :: "json \<Rightarrow> error + json"
  convert_v14_dict_to_v15_dict :: "json \<Rightarrow> error + json"

text \<open>
  One rung of the ladder:
  \<^verbatim>\<open>
  if exploration_schema_version == N:
      exploration_dict = cls._convert_vN_dict_to_vM_dict(exploration_dict)
      exploration_schema_version = M
  \<close>
\<close>

definition migration_step ::
  "int \<Rightarrow> (json \<Rightarrow> error + json) \<Rightarrow> json \<times> json \<Rightarrow> error + json \<times> json" where
  "migration_step n convert p =
     (case p of (exploration_dict, exploration_schema_version) \<Rightarrow>
        if py_eq_int exploration_schema_version n
        then (case convert exploration_dict of
                Inl err \<Rightarrow> Inl err
              | Inr converted \<Rightarrow> Inr (converted, JInt (n + 1)))
        else Inr p)"

fun migration_steps ::
  "(int \<times> (json \<Rightarrow> error + json)) list \<Rightarrow> json \<times> json \<Rightarrow> error + json \<times> json" where
  "migration_steps [] p = Inr p"
| "migration_steps ((n, convert) # rest) p =
     (case migration_step n convert p of
        Inl err \<Rightarrow> Inl err
      | Inr p' \<Rightarrow> migration_steps rest p')"

text \<open>
  \<^verbatim>\<open>_migrate_to_latest_yaml_version(cls, yaml_content, title=None, category=None)\<close>. The
  YAML parser \<^verbatim>\<open>utils.dict_from_yaml\<close> is outside this module and is a parameter; what it
  raises is wrapped into an \<^verbatim>\<open>Exception\<close>, and a parse that is not a dict has no
  \<^verbatim>\<open>get\<close>. The result is the pair of the converted dict and the initial schema version.
\<close>

definition migrate_to_latest_yaml_version ::
  "(string \<Rightarrow> error + json) \<Rightarrow> converters \<Rightarrow> string \<Rightarrow> json \<Rightarrow> json \<Rightarrow> error + json \<times> json" where
  "migrate_to_latest_yaml_version dict_from_yaml cv yaml_content title_arg category_arg =
     (case dict_from_yaml yaml_content of
        Inl _ \<Rightarrow>
          Inl (Exception
            (''Please ensure that you are uploading a YAML text file, not ''
             @ ''a zip file. The YAML parser returned the following error: ''))
      | Inr (JDict d) \<Rightarrow>
          (let exploration_schema_version =
                 (case dict_get d (JStr ''schema_version'') of None \<Rightarrow> JNull | Some v \<Rightarrow> v);
               initial_schema_version = exploration_schema_version
           in if exploration_schema_version = JNull
              then Inl (Exception ''Invalid YAML file: no schema version specified.'')
              else if \<not> (int_le_py 1 exploration_schema_version
                          \<and> py_le_int exploration_schema_version CURRENT_EXP_SCHEMA_VERSION)
              then Inl (Exception
                     (''Sorry, we can only process v1 to v15 exploration YAML files ''
                      @ ''at present.''))
              else (case migration_steps
                           [(1, convert_v1_dict_to_v2_dict cv),
                            (2, convert_v2_dict_to_v3_dict cv),
                            (3, convert_v3_dict_to_v4_dict cv),
                            (4, convert_v4_dict_to_v5_dict cv),
                            (5, convert_v5_dict_to_v6_dict cv),
                            (6, convert_v6_dict_to_v7_dict cv),
                            (7, convert_v7_dict_to_v8_dict cv),
                            (8, convert_v8_dict_to_v9_dict cv),
                            (9, \<lambda>exploration_dict.
                                  convert_v9_dict_to_v10_dict cv exploration_dict
                                    title_arg category_arg),
                            (10, convert_v10_dict_to_v11_dict cv),
                            (11, convert_v11_dict_to_v12_dict cv),
                            (12, convert_v12_dict_to_v13_dict cv),
                            (13, convert_v13_dict_to_v14_dict cv),
                            (14, convert_v14_dict_to_v15_dict cv)]
                           (JDict d, exploration_schema_version) of
                      Inl err \<Rightarrow> Inl err
                    | Inr (exploration_dict, _) \<Rightarrow>
                        Inr (exploration_dict, initial_schema_version)))
      | Inr _ \<Rightarrow> Inl (AttributeError ''object has no attribute 'get' ''))"

text \<open>
  \<^verbatim>\<open>exploration_dict['id'] = exploration_id\<close> on the migrated dict; a step that returned
  something else than a dict makes the assignment fail.
\<close>

definition set_id :: "json \<Rightarrow> string \<Rightarrow> error + json" where
  "set_id exploration_dict eid =
     (case exploration_dict of
        JDict d \<Rightarrow> Inr (JDict (dict_set d (JStr ''id'') (JStr eid)))
      | _ \<Rightarrow> Inl (ExternalError ''object does not support item assignment''))"

text \<open>
  The two entry points. \<^verbatim>\<open>Exploration.from_dict\<close> builds the domain object from the
  migrated dict; it is called last and is a parameter here.
  \<^verbatim>\<open>
  migration_result = cls._migrate_to_latest_yaml_version(yaml_content)
  exploration_dict = migration_result[0]
  initial_schema_version = migration_result[1]
  if (initial_schema_version <= cls.LAST_UNTITLED_SCHEMA_VERSION):
      raise Exception('Expected a YAML version >= 10, received: %d' % (
          initial_schema_version))
  exploration_dict['id'] = exploration_id
  return Exploration.from_dict(exploration_dict)
  \<close>
  \<^verbatim>\<open>from_untitled_yaml\<close> differs in passing the title and the category on and in its
  test, \<^verbatim>\<open>initial_schema_version > cls.LAST_UNTITLED_SCHEMA_VERSION\<close>, which on the
  versions the driver lets through is the negation of \<^verbatim>\<open><=\<close>.
\<close>

definition from_yaml ::
  "(string \<Rightarrow> error + json) \<Rightarrow> converters \<Rightarrow> (json \<Rightarrow> error + 'e) \<Rightarrow> string \<Rightarrow> string
     \<Rightarrow> error + 'e" where
  "from_yaml dict_from_yaml cv from_dict eid yaml_content =
     (case migrate_to_latest_yaml_version dict_from_yaml cv yaml_content JNull JNull of
        Inl err \<Rightarrow> Inl err
      | Inr (exploration_dict, initial_schema_version) \<Rightarrow>
          if py_le_int initial_schema_version LAST_UNTITLED_SCHEMA_VERSION
          then Inl (Exception ''Expected a YAML version >= 10, received: '')
          else (case set_id exploration_dict eid of
                  Inl err \<Rightarrow> Inl err
                | Inr d \<Rightarrow> from_dict d))"

definition from_untitled_yaml ::
  "(string \<Rightarrow> error + json) \<Rightarrow> converters \<Rightarrow> (json \<Rightarrow> error + 'e) \<Rightarrow> string \<Rightarrow> string
     \<Rightarrow> string \<Rightarrow> string \<Rightarrow> error + 'e" where
  "from_untitled_yaml dict_from_yaml cv from_dict eid title_arg category_arg yaml_content =
     (case migrate_to_latest_yaml_version dict_from_yaml cv yaml_content
             (JStr title_arg) (JStr category_arg) of
        Inl err \<Rightarrow> Inl err
      | Inr (exploration_dict, initial_schema_version) \<Rightarrow>
          if \<not> py_le_int initial_schema_version LAST_UNTITLED_SCHEMA_VERSION
          then Inl (Exception ''Expected a YAML version <= 9, received: '')
          else (case set_id exploration_dict eid of
                  Inl err \<Rightarrow> Inl err
                | Inr d \<Rightarrow> from_dict d))"

section \<open>Rule specifications\<close>

text \<open>\<^verbatim>\<open>s.index(sub)\<close>: the position of the first occurrence, if there is one.\<close>

fun str_index :: "string \<Rightarrow> string \<Rightarrow> nat option" where
  "str_index sub [] = (if sub = [] then Some 0 else None)"
| "str_index sub (c # cs) =
     (if take (length sub) (c # cs) = sub then Some 0
      else map_option Suc (str_index sub cs))"

text \<open>
  The loop of \<^verbatim>\<open>RuleSpec.validate\<close> over \<^verbatim>\<open>self.inputs.iteritems()\<close>:
  \<^verbatim>\<open>
  param_obj = rule_params_dict[param_name]
  if isinstance(param_value, basestring) and '{{' in param_value:
      start_brace_index = param_value.index('{{') + 2
      end_brace_index = param_value.index('}}')
      param_spec_name = param_value[start_brace_index:end_brace_index]
      if param_spec_name not in exp_param_specs_dict:
          raise utils.ValidationError(...)
  else:
      param_obj.normalize(param_value)
  \<close>
  The typed objects of the rule parameters are outside this module: a parameter object
  is its name, and \<open>normalize_obj\<close> gives what \<^verbatim>\<open>param_obj.normalize(value)\<close> returns or raises.
\<close>

fun validate_inputs ::
  "(string \<Rightarrow> json \<Rightarrow> error + json) \<Rightarrow> string \<Rightarrow> (json \<Rightarrow> string option) \<Rightarrow> pydict
     \<Rightarrow> pydict \<Rightarrow> error + unit" where
  "validate_inputs normalize_obj rtype rule_params_dict exp_param_specs_dict [] = Inr ()"
| "validate_inputs normalize_obj rtype rule_params_dict exp_param_specs_dict
       ((param_name, param_value) # rest) =
     (case rule_params_dict param_name of
        None \<Rightarrow> Inl (KeyError param_name)
      | Some param_obj \<Rightarrow>
          (case (case param_value of
                   JStr s \<Rightarrow>
                     (case str_index ''{{'' s of
                        Some start \<Rightarrow>
                          (case str_index ''}}'' s of
                             None \<Rightarrow> Inl (ValueError ''substring not found'')
                           | Some end_brace_index \<Rightarrow>
                               (let start_brace_index = start + 2;
                                    param_spec_name =
                                      take (end_brace_index - start_brace_index)
                                        (drop start_brace_index s)
                                in if JStr param_spec_name \<notin> set (dict_keys exp_param_specs_dict)
                                   then Inl (ValidationError
                                          (''RuleSpec '' @ quoted rtype
                                           @ '' has an input which refers to an unknown ''
                                           @ ''parameter within the exploration: ''
                                           @ param_spec_name))
                                   else Inr ()))
                      | None \<Rightarrow>
                          (case normalize_obj param_obj param_value of
                             Inl err \<Rightarrow> Inl err | Inr _ \<Rightarrow> Inr ()))
                 | _ \<Rightarrow>
                     (case normalize_obj param_obj param_value of
                        Inl err \<Rightarrow> Inl err | Inr _ \<Rightarrow> Inr ())) of
             Inl err \<Rightarrow> Inl err
           | Inr _ \<Rightarrow>
               validate_inputs normalize_obj rtype rule_params_dict exp_param_specs_dict rest))"

text \<open>
  \<^verbatim>\<open>
  def validate(self, rule_params_list, exp_param_specs_dict):
      if not isinstance(self.inputs, dict): raise utils.ValidationError(...)
      input_key_set = set(self.inputs.keys())
      param_names_set = set([rp[0] for rp in rule_params_list])
      leftover_input_keys = input_key_set - param_names_set
      leftover_param_names = param_names_set - input_key_set
      if leftover_input_keys: logging.warning(...)
      if leftover_param_names: raise utils.ValidationError(...)
      rule_params_dict = {rp[0]: rp[1] for rp in rule_params_list}
      for (param_name, param_value) in self.inputs.iteritems(): ...
  \<close>
  The result is the warnings logged and what the call returns or raises. In the dict
  comprehension a later pair of the list replaces an earlier one with the same name.
\<close>

definition RuleSpec_validate ::
  "(string \<Rightarrow> json \<Rightarrow> error + json) \<Rightarrow> rule_spec \<Rightarrow> (string \<times> string) list \<Rightarrow> pydict
     \<Rightarrow> warning list \<times> (error + unit)" where
  "RuleSpec_validate normalize_obj rs rule_params_list exp_param_specs_dict =
     (case inputs rs of
        JDict d \<Rightarrow>
          (let param_names = map (\<lambda>rp. JStr (fst rp)) rule_params_list;
               leftover_input_keys =
                 filter (\<lambda>k. k \<notin> set param_names) (remdups (dict_keys d));
               leftover_param_names =
                 filter (\<lambda>n. n \<notin> set (dict_keys d)) (remdups param_names);
               logged = (if leftover_input_keys \<noteq> []
                         then [UnrecognizedRuleInputs (rule_type rs) leftover_input_keys]
                         else [])
           in if leftover_param_names \<noteq> []
              then (logged,
                    Inl (ValidationError
                      (''RuleSpec '' @ quoted (rule_type rs) @ '' is missing inputs: '')))
              else (logged,
                    validate_inputs normalize_obj (rule_type rs)
                      (map_of (rev (map (\<lambda>rp. (JStr (fst rp), snd rp)) rule_params_list)))
                      exp_param_specs_dict d))
      | _ \<Rightarrow> ([], Inl (ValidationError ''Expected inputs to be a dict'')))"

section \<open>Sample data\<close>

text \<open>
  Sample objects for the concrete instances below: an outcome to a state, a fallback to a
  state with given feedback, a state with a given interaction id whose answer groups,
  default outcome and fallbacks lead to given states, an exploration of given states and
  gadgets, and a registry that knows one terminal and one non-terminal interaction.
\<close>

definition outcome_to :: "string \<Rightarrow> outcome" where
  "outcome_to d = \<lparr>dest = d, feedback = [], param_changes = []\<rparr>"

definition fallback_to :: "string \<Rightarrow> string list \<Rightarrow> fallback" where
  "fallback_to d fb =
     \<lparr>trigger = \<lparr>trigger_type = ''NthResubmission'', trigger_customization_args = JDict []\<rparr>,
      fb_outcome = \<lparr>dest = d, feedback = fb, param_changes = []\<rparr>\<rparr>"

definition sample_state ::
  "string option \<Rightarrow> string list \<Rightarrow> string option \<Rightarrow> string list \<Rightarrow> state" where
  "sample_state iid group_dests default_dest fallback_dests =
     \<lparr>content = \<lparr>html = [], audio_translations = JDict []\<rparr>,
      state_param_changes = [],
      interaction =
        \<lparr>interaction_id = iid, customization_args = JDict [],
         answer_groups =
           map (\<lambda>d. \<lparr>ag_outcome = outcome_to d,
                      rule_specs = [\<lparr>rule_type = ''Equals'', inputs = JDict []\<rparr>],
                      correct = False\<rparr>) group_dests,
         default_outcome = map_option outcome_to default_dest,
         confirmed_unclassified_answers = [],
         fallbacks = map (\<lambda>d. fallback_to d []) fallback_dests,
         hints = [], solution = JDict []\<rparr>,
      classifier_model_id = None\<rparr>"


definition sample_exploration ::
  "string \<Rightarrow> (string \<times> state) list \<Rightarrow> gadget_instance list \<Rightarrow> exploration" where
  "sample_exploration init sts gadgets =
     \<lparr>exploration_id = ''exp1'', title = ''Title'', category = ''Category'',
      objective = [], language_code = ''en'', tags = [], blurb = [], author_notes = [],
      states_schema_version = 12, init_state_name = init,
      skin_instance = \<lparr>skin_id = ''conversation_v1'',
                        panel_contents_dict = [(''bottom'', gadgets)]\<rparr>,
      states = sts, param_specs = [], exp_param_changes = [], version = 0\<rparr>"

definition sample_registry :: "string \<Rightarrow> bool option" where
  "sample_registry iid =
     (if iid = ''EndExploration'' then Some True
      else if iid = ''TextInput'' then Some False
      else None)"

text \<open>
  A set listed in a fixed order of the names that can occur: what \<^verbatim>\<open>list(s)\<close> does for one
  layout of the hash table.
\<close>

definition list_in_order :: "string list \<Rightarrow> string set \<Rightarrow> string list" where
  "list_in_order order S = filter (\<lambda>n. n \<in> S) order"

text \<open>
  Stand-ins for the conversion steps and the YAML parser in the concrete instances: a
  step that only stamps the next schema version, and a parser that knows five documents.
\<close>

definition stamp_version :: "int \<Rightarrow> json \<Rightarrow> error + json" where
  "stamp_version n exploration_dict =
     (case exploration_dict of
        JDict d \<Rightarrow> Inr (JDict (dict_set d (JStr ''schema_version'') (JInt n)))
      | _ \<Rightarrow> Inl (ExternalError ''object does not support item assignment''))"

definition stamping_converters :: converters where
  "stamping_converters =
     \<lparr>convert_v1_dict_to_v2_dict = stamp_version 2,
      convert_v2_dict_to_v3_dict = stamp_version 3,
      convert_v3_dict_to_v4_dict = stamp_version 4,
      convert_v4_dict_to_v5_dict = stamp_version 5,
      convert_v5_dict_to_v6_dict = stamp_version 6,
      convert_v6_dict_to_v7_dict = stamp_version 7,
      convert_v7_dict_to_v8_dict = stamp_version 8,
      convert_v8_dict_to_v9_dict = stamp_version 9,
      convert_v9_dict_to_v10_dict = (\<lambda>d t c. stamp_version 10 d),
      convert_v10_dict_to_v11_dict = stamp_version 11,
      convert_v11_dict_to_v12_dict = stamp_version 12,
      convert_v12_dict_to_v13_dict = stamp_version 13,
      convert_v13_dict_to_v14_dict = stamp_version 14,
      convert_v14_dict_to_v15_dict = stamp_version 15\<rparr>"

definition sample_parser :: "string \<Rightarrow> error + json" where
  "sample_parser yaml_content =
     (if yaml_content = ''schema_version: 15''
      then Inr (JDict [(JStr ''schema_version'', JInt 15)])
      else if yaml_content = ''schema_version: 9''
      then Inr (JDict [(JStr ''schema_version'', JInt 9)])
      else if yaml_content = ''schema_version: 10''
      then Inr (JDict [(JStr ''schema_version'', JInt 10)])
      else if yaml_content = ''schema_version: 16''
      then Inr (JDict [(JStr ''schema_version'', JInt 16)])
      else if yaml_content = ''title: t''
      then Inr (JDict [(JStr ''title'', JStr ''t'')])
      else Inl (ExternalError ''could not parse''))"

section \<open>What the graph validators decide\<close>

text \<open>
  The statements of the two validators, in the words of their docstrings. A state is
  reachable when a path leads to it from the initial state, where a step goes from a
  state that is not terminal along any of its outcomes (answer groups, default outcome,
  fallbacks).
\<close>

definition successors ::
  "(string \<Rightarrow> bool option) \<Rightarrow> (string \<times> state) list \<Rightarrow> string \<Rightarrow> string set" where
  "successors registry sts n =
     (case map_of sts n of
        None \<Rightarrow> {}
      | Some st \<Rightarrow>
          if is_terminal registry (interaction st) = Inr False
          then dest ` set (get_all_outcomes (interaction st))
          else {})"

definition reachable_states :: "(string \<Rightarrow> bool option) \<Rightarrow> exploration \<Rightarrow> string set" where
  "reachable_states registry e =
     {n. (init_state_name e, n) \<in> {(a, b). b \<in> successors registry (states e) a}\<^sup>*}"

text \<open>
  A state can be completed when it is terminal, or one of its non-fallback outcomes leads
  to a state that can be completed.
\<close>

inductive_set can_complete :: "(string \<Rightarrow> bool option) \<Rightarrow> (string \<times> state) list \<Rightarrow> string set"
  for registry :: "string \<Rightarrow> bool option" and sts :: "(string \<times> state) list" where
  terminal:
    "(n, st) \<in> set sts \<Longrightarrow> is_terminal registry (interaction st) = Inr True
       \<Longrightarrow> n \<in> can_complete registry sts"
| step:
    "(n, st) \<in> set sts \<Longrightarrow> out \<in> set (get_all_non_fallback_outcomes (interaction st))
       \<Longrightarrow> dest out \<in> can_complete registry sts \<Longrightarrow> n \<in> can_complete registry sts"

text \<open>
  Three explorations: \<open>A\<close> (initial) leads to \<open>B\<close>, \<open>B\<close> to the terminal \<open>C\<close>, and
  nothing leads to \<open>D\<close>; \<open>A\<close> (initial) and \<open>B\<close> lead to each other and no state is
  terminal; and \<open>a\<close> (initial), \<open>b\<close> and \<open>c\<close> each lead to themselves only.
\<close>

definition unreachable_D_exploration :: exploration where
  "unreachable_D_exploration =
     sample_exploration ''A''
       [(''A'', sample_state (Some ''TextInput'') [] (Some ''B'') []),
        (''B'', sample_state (Some ''TextInput'') [] (Some ''C'') []),
        (''C'', sample_state (Some ''EndExploration'') [] None []),
        (''D'', sample_state (Some ''TextInput'') [] (Some ''D'') [])] []"

definition cycle_exploration :: exploration where
  "cycle_exploration =
     sample_exploration ''A''
       [(''A'', sample_state (Some ''TextInput'') [] (Some ''B'') []),
        (''B'', sample_state (Some ''TextInput'') [] (Some ''A'') [])] []"

definition self_loops_exploration :: exploration where
  "self_loops_exploration =
     sample_exploration ''a''
       [(''a'', sample_state (Some ''TextInput'') [] (Some ''a'') []),
        (''b'', sample_state (Some ''TextInput'') [] (Some ''b'') []),
        (''c'', sample_state (Some ''TextInput'') [] (Some ''c'') [])] []"

section \<open>Properties of the customization arguments\<close>
















section \<open>Properties of the fallback and hint editing\<close>

lemma fallbacks_hint_list_eq:
  "fallbacks_hint_list clean fbs
     = map (\<lambda>fb. \<lparr>hint_text = clean (hd (feedback (fb_outcome fb)))\<rparr>)
           (filter (\<lambda>fb. feedback (fb_outcome fb) \<noteq> []) fbs)"
  by (induction fbs) (auto simp: Hint_to_dict_def Hint_init_def split: list.splits)

lemma feedback_Fallback_from_dict:
  "feedback (fb_outcome (Fallback_from_dict clean fb)) = map clean (feedback (fb_outcome fb))"
  by (simp add: Fallback_from_dict_def Outcome_from_dict_def Outcome_init_def)

text \<open>
  Claim C10. For every state, \<^verbatim>\<open>update_interaction_fallbacks\<close> with a non-empty list of
  fallback dicts sets the fallbacks and replaces the hints by one hint for each fallback
  that has feedback, made from its first feedback line (cleaned by the outcome, by the
  hint and by \<^verbatim>\<open>Hint.from_dict\<close>); with the empty list it raises
  \<^verbatim>\<open>UnboundLocalError\<close>, a \<^verbatim>\<open>NameError\<close>, on reading \<^verbatim>\<open>hint_list\<close>, after it has emptied the
  fallbacks.
\<close>

theorem update_interaction_fallbacks_hints:
  "(fallbacks_list \<noteq> [] \<longrightarrow>
      update_interaction_fallbacks clean st fallbacks_list =
        (st\<lparr>interaction := (interaction st)
              \<lparr>fallbacks := map (Fallback_from_dict clean) fallbacks_list,
               hints := map (\<lambda>fb. \<lparr>hint_text =
                                      clean (clean (clean (hd (feedback (fb_outcome fb)))))\<rparr>)
                            (filter (\<lambda>fb. feedback (fb_outcome fb) \<noteq> []) fallbacks_list)\<rparr>\<rparr>,
         None))
   \<and> (\<exists>err. update_interaction_fallbacks clean st [] =
               (st\<lparr>interaction := (interaction st)\<lparr>fallbacks := []\<rparr>\<rparr>, Some err)
             \<and> is_NameError err)"
proof (intro conjI impI)
  assume ne: "fallbacks_list \<noteq> []"
  have h: "map (Hint_from_dict clean)
             (fallbacks_hint_list clean (map (Fallback_from_dict clean) fallbacks_list))
           = map (\<lambda>fb. \<lparr>hint_text = clean (clean (clean (hd (feedback (fb_outcome fb)))))\<rparr>)
                 (filter (\<lambda>fb. feedback (fb_outcome fb) \<noteq> []) fallbacks_list)"
    unfolding fallbacks_hint_list_eq
    by (induction fallbacks_list)
       (auto simp: feedback_Fallback_from_dict Hint_from_dict_def Hint_init_def hd_map)
  show "update_interaction_fallbacks clean st fallbacks_list =
        (st\<lparr>interaction := (interaction st)
              \<lparr>fallbacks := map (Fallback_from_dict clean) fallbacks_list,
               hints := map (\<lambda>fb. \<lparr>hint_text =
                                      clean (clean (clean (hd (feedback (fb_outcome fb)))))\<rparr>)
                            (filter (\<lambda>fb. feedback (fb_outcome fb) \<noteq> []) fallbacks_list)\<rparr>\<rparr>,
         None)"
    using ne by (simp add: update_interaction_fallbacks_def update_interaction_hints_def h Let_def)
next
  show "\<exists>err. update_interaction_fallbacks clean st [] =
               (st\<lparr>interaction := (interaction st)\<lparr>fallbacks := []\<rparr>\<rparr>, Some err)
             \<and> is_NameError err"
    by (simp add: update_interaction_fallbacks_def)
qed

theorem update_interaction_fallbacks_hints_witness:
  "[fallback_to ''B'' [''try again'', ''x''], fallback_to ''B'' []] \<noteq> []
   \<and> update_interaction_fallbacks (\<lambda>s. s) (sample_state (Some ''TextInput'') [] (Some ''A'') [])
       [fallback_to ''B'' [''try again'', ''x''], fallback_to ''B'' []]
     = ((sample_state (Some ''TextInput'') [] (Some ''A'') [])
          \<lparr>interaction := (interaction (sample_state (Some ''TextInput'') [] (Some ''A'') []))
             \<lparr>fallbacks := [fallback_to ''B'' [''try again'', ''x''], fallback_to ''B'' []],
              hints := [\<lparr>hint_text = ''try again''\<rparr>]\<rparr>\<rparr>,
        None)"
  using update_interaction_fallbacks_hints
          [of "[fallback_to ''B'' [''try again'', ''x''], fallback_to ''B'' []]" "\<lambda>s. s"
              "sample_state (Some ''TextInput'') [] (Some ''A'') []"]
  by (simp add: fallback_to_def Fallback_from_dict_def TriggerInstance_from_dict_def
        Outcome_from_dict_def Outcome_init_def)

section \<open>Properties of the migration driver\<close>

lemma migrate_missing_version:
  assumes "dict_from_yaml yaml_content = Inr (JDict d)"
    and "dict_get d (JStr ''schema_version'') = None
           \<or> dict_get d (JStr ''schema_version'') = Some JNull"
  shows "migrate_to_latest_yaml_version dict_from_yaml cv yaml_content t c
           = Inl (Exception ''Invalid YAML file: no schema version specified.'')"
  using assms by (auto simp: migrate_to_latest_yaml_version_def)

lemma migrate_out_of_range:
  assumes "dict_from_yaml yaml_content = Inr (JDict d)"
    and "dict_get d (JStr ''schema_version'') = Some (JInt n)"
    and "n < 1 \<or> 15 < n"
  shows "migrate_to_latest_yaml_version dict_from_yaml cv yaml_content t c
           = Inl (Exception (''Sorry, we can only process v1 to v15 exploration YAML files ''
                      @ ''at present.''))"
  using assms by (auto simp: migrate_to_latest_yaml_version_def int_le_py_def py_le_int_def
      CURRENT_EXP_SCHEMA_VERSION_def)

lemma migrate_initial_version:
  assumes "dict_from_yaml yaml_content = Inr (JDict d)"
    and "migrate_to_latest_yaml_version dict_from_yaml cv yaml_content t c = Inr (d', v)"
  shows "dict_get d (JStr ''schema_version'') = Some v"
  using assms
  by (auto simp: migrate_to_latest_yaml_version_def Let_def
           split: option.splits if_splits sum.splits)

text \<open>
  Claim C1. When the parsed document is a dict whose \<^verbatim>\<open>schema_version\<close> equals the current
  version 15, \<^verbatim>\<open>_migrate_to_latest_yaml_version\<close> returns that dict as it is, with 15 as
  the initial version, whatever the conversion steps are: none of them is applied.
\<close>

theorem migrate_current_version_unchanged:
  assumes "dict_from_yaml yaml_content = Inr (JDict d)"
    and "dict_get d (JStr ''schema_version'') = Some v"
    and "py_eq_int v CURRENT_EXP_SCHEMA_VERSION"
  shows "migrate_to_latest_yaml_version dict_from_yaml cv yaml_content title_arg category_arg
           = Inr (JDict d, v)"
proof -
  from assms(3) have num: "py_num v = Some 15"
    by (simp add: py_eq_int_def CURRENT_EXP_SCHEMA_VERSION_def)
  then have nn: "v \<noteq> JNull" by auto
  have range: "int_le_py 1 v" "py_le_int v CURRENT_EXP_SCHEMA_VERSION"
    using num nn by (auto simp: int_le_py_def py_le_int_def CURRENT_EXP_SCHEMA_VERSION_def
                          split: json.splits)
  have neq: "\<not> py_eq_int v n" if "n \<noteq> 15" for n
    using num that by (simp add: py_eq_int_def)
  show ?thesis
    using assms(1,2) nn range
    by (simp add: migrate_to_latest_yaml_version_def migration_step_def neq)
qed

theorem migrate_current_version_unchanged_witness:
  "sample_parser ''schema_version: 15'' = Inr (JDict [(JStr ''schema_version'', JInt 15)])
   \<and> dict_get [(JStr ''schema_version'', JInt 15)] (JStr ''schema_version'') = Some (JInt 15)
   \<and> py_eq_int (JInt 15) CURRENT_EXP_SCHEMA_VERSION
   \<and> migrate_to_latest_yaml_version sample_parser stamping_converters ''schema_version: 15''
        JNull JNull
      = Inr (JDict [(JStr ''schema_version'', JInt 15)], JInt 15)"
proof -
  have p: "sample_parser ''schema_version: 15'' = Inr (JDict [(JStr ''schema_version'', JInt 15)])"
    by (simp add: sample_parser_def)
  have g: "dict_get [(JStr ''schema_version'', JInt 15)] (JStr ''schema_version'') = Some (JInt 15)"
    by (simp add: dict_get_def)
  have e: "py_eq_int (JInt 15) CURRENT_EXP_SCHEMA_VERSION"
    by (simp add: py_eq_int_def CURRENT_EXP_SCHEMA_VERSION_def)
  show ?thesis
    using p g e migrate_current_version_unchanged
            [where dict_from_yaml = sample_parser and cv = stamping_converters
               and title_arg = JNull and category_arg = JNull, OF p g e]
    by simp
qed

text \<open>
  Claim C5. For a document that parses to a dict: \<^verbatim>\<open>from_yaml\<close> raises when the declared
  \<^verbatim>\<open>schema_version\<close> is at most 9; \<^verbatim>\<open>from_untitled_yaml\<close> raises when it is 10 or
  greater; and the driver, and with it both entry points, raises when \<^verbatim>\<open>schema_version\<close>
  is missing or lies outside the range 1 to 15.
\<close>

theorem yaml_version_routing:
  assumes "dict_from_yaml yaml_content = Inr (JDict d)"
  shows "(dict_get d (JStr ''schema_version'') = Some (JInt n) \<and> n \<le> 9 \<longrightarrow>
            isl (from_yaml dict_from_yaml cv from_dict eid yaml_content))
       \<and> (dict_get d (JStr ''schema_version'') = Some (JInt n) \<and> 10 \<le> n \<longrightarrow>
            isl (from_untitled_yaml dict_from_yaml cv from_dict eid title_arg category_arg
                   yaml_content))
       \<and> (dict_get d (JStr ''schema_version'') = None
            \<or> (dict_get d (JStr ''schema_version'') = Some (JInt n) \<and> (n < 1 \<or> 15 < n)) \<longrightarrow>
            isl (migrate_to_latest_yaml_version dict_from_yaml cv yaml_content t c)
            \<and> isl (from_yaml dict_from_yaml cv from_dict eid yaml_content)
            \<and> isl (from_untitled_yaml dict_from_yaml cv from_dict eid title_arg category_arg
                     yaml_content))"
proof (intro conjI impI)
  assume v: "dict_get d (JStr ''schema_version'') = Some (JInt n) \<and> n \<le> 9"
  show "isl (from_yaml dict_from_yaml cv from_dict eid yaml_content)"
  proof (cases "migrate_to_latest_yaml_version dict_from_yaml cv yaml_content JNull JNull")
    case (Inl err)
    then show ?thesis by (simp add: from_yaml_def)
  next
    case (Inr p)
    obtain d' v' where p: "p = (d', v')" by (cases p)
    have "v' = JInt n"
      using migrate_initial_version
              [where dict_from_yaml = dict_from_yaml, OF assms Inr [unfolded p]] v
      by simp
    then show ?thesis
      using Inr p v by (simp add: from_yaml_def py_le_int_def LAST_UNTITLED_SCHEMA_VERSION_def)
  qed
next
  assume v: "dict_get d (JStr ''schema_version'') = Some (JInt n) \<and> 10 \<le> n"
  show "isl (from_untitled_yaml dict_from_yaml cv from_dict eid title_arg category_arg
               yaml_content)"
  proof (cases "migrate_to_latest_yaml_version dict_from_yaml cv yaml_content
                  (JStr title_arg) (JStr category_arg)")
    case (Inl err)
    then show ?thesis by (simp add: from_untitled_yaml_def)
  next
    case (Inr p)
    obtain d' v' where p: "p = (d', v')" by (cases p)
    have "v' = JInt n"
      using migrate_initial_version
              [where dict_from_yaml = dict_from_yaml, OF assms Inr [unfolded p]] v
      by simp
    then show ?thesis
      using Inr p v
      by (simp add: from_untitled_yaml_def py_le_int_def LAST_UNTITLED_SCHEMA_VERSION_def)
  qed
next
  assume v: "dict_get d (JStr ''schema_version'') = None
            \<or> (dict_get d (JStr ''schema_version'') = Some (JInt n) \<and> (n < 1 \<or> 15 < n))"
  have m: "isl (migrate_to_latest_yaml_version dict_from_yaml cv yaml_content t' c')" for t' c'
    using v migrate_missing_version [where dict_from_yaml = dict_from_yaml, OF assms, of cv t' c']
      migrate_out_of_range [where dict_from_yaml = dict_from_yaml, OF assms, of n cv t' c']
    by auto
  show "isl (migrate_to_latest_yaml_version dict_from_yaml cv yaml_content t c)"
    by (rule m)
  show "isl (from_yaml dict_from_yaml cv from_dict eid yaml_content)"
    using m [of JNull JNull] by (auto simp: from_yaml_def split: sum.splits)
  show "isl (from_untitled_yaml dict_from_yaml cv from_dict eid title_arg category_arg
                     yaml_content)"
    using m [of "JStr title_arg" "JStr category_arg"]
    by (auto simp: from_untitled_yaml_def split: sum.splits)
qed

theorem yaml_version_routing_witness:
  "sample_parser ''schema_version: 9'' = Inr (JDict [(JStr ''schema_version'', JInt 9)])
   \<and> isl (from_yaml sample_parser stamping_converters (\<lambda>d. Inr d) ''exp1''
            ''schema_version: 9'')
   \<and> sample_parser ''schema_version: 10'' = Inr (JDict [(JStr ''schema_version'', JInt 10)])
   \<and> isl (from_untitled_yaml sample_parser stamping_converters (\<lambda>d. Inr d) ''exp1'' ''T'' ''C''
            ''schema_version: 10'')
   \<and> sample_parser ''title: t'' = Inr (JDict [(JStr ''title'', JStr ''t'')])
   \<and> isl (from_yaml sample_parser stamping_converters (\<lambda>d. Inr d) ''exp1'' ''title: t'')
   \<and> sample_parser ''schema_version: 16'' = Inr (JDict [(JStr ''schema_version'', JInt 16)])
   \<and> isl (from_untitled_yaml sample_parser stamping_converters (\<lambda>d. Inr d) ''exp1'' ''T'' ''C''
            ''schema_version: 16'')"
proof -
  have p9: "sample_parser ''schema_version: 9'' = Inr (JDict [(JStr ''schema_version'', JInt 9)])"
    and p10: "sample_parser ''schema_version: 10''
                = Inr (JDict [(JStr ''schema_version'', JInt 10)])"
    and p16: "sample_parser ''schema_version: 16''
                = Inr (JDict [(JStr ''schema_version'', JInt 16)])"
    and pt: "sample_parser ''title: t'' = Inr (JDict [(JStr ''title'', JStr ''t'')])"
    by (simp_all add: sample_parser_def)
  show ?thesis
    using p9 p10 p16 pt
      yaml_version_routing [where dict_from_yaml = sample_parser and n = 9
            and cv = stamping_converters and from_dict = "\<lambda>d. Inr d" and eid = "''exp1''", OF p9]
      yaml_version_routing [where dict_from_yaml = sample_parser and n = 10
            and cv = stamping_converters and from_dict = "\<lambda>d. Inr d" and eid = "''exp1''"
            and title_arg = "''T''" and category_arg = "''C''", OF p10]
      yaml_version_routing [where dict_from_yaml = sample_parser
            and cv = stamping_converters and from_dict = "\<lambda>d. Inr d" and eid = "''exp1''", OF pt]
      yaml_version_routing [where dict_from_yaml = sample_parser and n = 16
            and cv = stamping_converters and from_dict = "\<lambda>d. Inr d" and eid = "''exp1''"
            and title_arg = "''T''" and category_arg = "''C''", OF p16]
    by (simp add: dict_get_def)
qed

section \<open>Properties of the rule specification check\<close>

lemma validate_inputs_keys:
  "\<not> isl (validate_inputs nrm rtype rpd eps d) \<Longrightarrow> (k, v) \<in> set d \<Longrightarrow> rpd k \<noteq> None"
  by (induction d) (auto split: option.splits sum.splits)

text \<open>
  Whatever the normalizer does, an inputs dict with a key that is not a declared parameter
  name never passes: the loop over the inputs looks every key up in the dict of the
  declared parameters.
\<close>

lemma RuleSpec_validate_extra_key_raises:
  assumes "inputs rs = JDict d" and "k \<in> set (dict_keys d)"
    and "k \<notin> (\<lambda>rp. JStr (fst rp)) ` set rule_params_list"
  shows "isl (snd (RuleSpec_validate nrm rs rule_params_list eps))"
proof (rule ccontr)
  assume n: "\<not> isl (snd (RuleSpec_validate nrm rs rule_params_list eps))"
  then have ok: "\<not> isl (validate_inputs nrm (rule_type rs)
            (map_of (rev (map (\<lambda>rp. (JStr (fst rp), snd rp)) rule_params_list))) eps d)"
    using assms(1) by (auto simp: RuleSpec_validate_def Let_def split: if_splits sum.splits)
  from assms(2) obtain v where "(k, v) \<in> set d" by (auto simp: dict_keys_def)
  from validate_inputs_keys [OF ok this]
  have "k \<in> fst ` set (rev (map (\<lambda>rp. (JStr (fst rp), snd rp)) rule_params_list))"
    by (metis map_of_eq_None_iff)
  then show False using assms(3) by (auto simp: image_iff)
qed

text \<open>A declared parameter name that the inputs lack gives a \<^verbatim>\<open>ValidationError\<close>.\<close>

lemma RuleSpec_validate_missing_param_raises:
  assumes "(n, t) \<in> set rule_params_list"
    and "\<forall>d. inputs rs = JDict d \<longrightarrow> JStr n \<notin> set (dict_keys d)"
  shows "\<exists>msg. snd (RuleSpec_validate nrm rs rule_params_list eps) = Inl (ValidationError msg)"
proof (cases "inputs rs")
  case (JDict d')
  show ?thesis
  proof (cases "JStr n \<in> set (dict_keys d')")
    case True
    then show ?thesis using assms(2) JDict by auto
  next
    case False
    have "JStr n \<in> set (filter (\<lambda>n. n \<notin> set (dict_keys d'))
                 (remdups (map (\<lambda>rp. JStr (fst rp)) rule_params_list)))"
      using assms(1) False by (auto simp: image_iff intro!: bexI [of _ "(n, t)"])
    then have "filter (\<lambda>n. n \<notin> set (dict_keys d'))
                 (remdups (map (\<lambda>rp. JStr (fst rp)) rule_params_list)) \<noteq> []"
      by (metis empty_iff empty_set)
    then show ?thesis using JDict by (simp add: RuleSpec_validate_def Let_def)
  qed
qed (simp_all add: RuleSpec_validate_def)

text \<open>
  Claim C8 at the rule \<^verbatim>\<open>Equals\<close> with the one declared parameter \<^verbatim>\<open>x\<close> and the inputs
  \<^verbatim>\<open>{'x': 5, 'y': 7}\<close>, with a normalizer that accepts every value: the warning about the
  unrecognized input \<^verbatim>\<open>y\<close> is logged, and then the lookup \<^verbatim>\<open>rule_params_dict['y']\<close>
  raises \<^verbatim>\<open>KeyError\<close>; the call does not complete.
\<close>

theorem RuleSpec_validate_extra_key_KeyError:
  "RuleSpec_validate (\<lambda>param_obj v. Inr v)
     \<lparr>rule_type = ''Equals'', inputs = JDict [(JStr ''x'', JInt 5), (JStr ''y'', JInt 7)]\<rparr>
     [(''x'', ''Int'')] []
   = ([UnrecognizedRuleInputs ''Equals'' [JStr ''y'']], Inl (KeyError (JStr ''y'')))"
  by (simp add: RuleSpec_validate_def dict_keys_def)

section \<open>Properties of renaming and deleting a state\<close>

lemma get_all_outcomes_map_all_outcomes:
  "get_all_outcomes (map_all_outcomes f i) = map f (get_all_outcomes i)"
  by (cases "default_outcome i")
     (simp_all add: get_all_outcomes_def get_all_non_fallback_outcomes_def map_all_outcomes_def
        comp_def)

lemma get_all_outcomes_redirect_state:
  "get_all_outcomes (interaction (redirect_state old new st))
     = map (\<lambda>out. if dest out = old then out\<lparr>dest := new\<rparr> else out)
           (get_all_outcomes (interaction st))"
  by (simp add: redirect_state_def get_all_outcomes_map_all_outcomes redirect_def [abs_def])

lemma no_dest_after_redirect:
  "new \<noteq> old \<Longrightarrow> out \<in> set (get_all_outcomes (interaction (redirect_state old new st)))
     \<Longrightarrow> dest out \<noteq> old"
  by (auto simp: get_all_outcomes_redirect_state)

lemma map_of_deleted:
  "n \<noteq> X \<Longrightarrow>
   map_of (filter (\<lambda>(n, _). n \<noteq> X) (map (\<lambda>(k, st). (k, f k st)) sts)) n
     = map_option (f n) (map_of sts n)"
  by (induction sts) auto

text \<open>
  Claim C2. For an existing state name \<open>X\<close> that is not the initial state,
  \<^verbatim>\<open>delete_state(X)\<close> succeeds; \<open>X\<close> is no longer a state name; every other state is kept
  under its name with each outcome (answer-group, default and fallback) whose destination
  was \<open>X\<close> now pointing at the name of the state that contains it, and its other outcomes
  as they were; and no outcome of any remaining state has destination \<open>X\<close>.
\<close>

theorem delete_state_redirects_to_container:
  assumes "X \<in> set (state_names e)" and "X \<noteq> init_state_name e"
  shows "\<exists>e'. delete_state e X = Inr e'
           \<and> X \<notin> set (state_names e')
           \<and> (\<forall>n. n \<noteq> X \<longrightarrow>
                  map_of (states e') n = map_option (redirect_state X n) (map_of (states e) n))
           \<and> (\<forall>n st. get_all_outcomes (interaction (redirect_state X n st))
                  = map (\<lambda>out. if dest out = X then out\<lparr>dest := n\<rparr> else out)
                        (get_all_outcomes (interaction st)))
           \<and> (\<forall>(n, st) \<in> set (states e').
                  \<forall>out \<in> set (get_all_outcomes (interaction st)). dest out \<noteq> X)"
proof -
  let ?sts = "filter (\<lambda>(n, _). n \<noteq> X)
                (map (\<lambda>(k, st). (k, redirect_state X k st)) (states e))"
  have d: "delete_state e X = Inr (e\<lparr>states := ?sts\<rparr>)"
    using assms by (auto simp: delete_state_def)
  have "X \<notin> set (state_names (e\<lparr>states := ?sts\<rparr>))"
    by (auto simp: state_names_def)
  moreover have "\<forall>n. n \<noteq> X \<longrightarrow>
      map_of (states (e\<lparr>states := ?sts\<rparr>)) n = map_option (redirect_state X n) (map_of (states e) n)"
    by (simp add: map_of_deleted)
  moreover have "\<forall>(n, st) \<in> set (states (e\<lparr>states := ?sts\<rparr>)).
                  \<forall>out \<in> set (get_all_outcomes (interaction st)). dest out \<noteq> X"
    by (auto dest: no_dest_after_redirect)
  ultimately show ?thesis
    using d get_all_outcomes_redirect_state by auto
qed

theorem delete_state_redirects_to_container_witness:
  "''B'' \<in> set (state_names (sample_exploration ''A''
       [(''A'', sample_state (Some ''TextInput'') [''B''] (Some ''A'') [''B'']),
        (''B'', sample_state (Some ''TextInput'') [] (Some ''B'') [])] []))
   \<and> ''B'' \<noteq> init_state_name (sample_exploration ''A''
       [(''A'', sample_state (Some ''TextInput'') [''B''] (Some ''A'') [''B'']),
        (''B'', sample_state (Some ''TextInput'') [] (Some ''B'') [])] [])
   \<and> delete_state (sample_exploration ''A''
       [(''A'', sample_state (Some ''TextInput'') [''B''] (Some ''A'') [''B'']),
        (''B'', sample_state (Some ''TextInput'') [] (Some ''B'') [])] []) ''B''
     = Inr (sample_exploration ''A''
       [(''A'', sample_state (Some ''TextInput'') [''A''] (Some ''A'') [''A''])] [])"
proof -
  let ?e = "sample_exploration ''A''
       [(''A'', sample_state (Some ''TextInput'') [''B''] (Some ''A'') [''B'']),
        (''B'', sample_state (Some ''TextInput'') [] (Some ''B'') [])] []"
  have h1: "''B'' \<in> set (state_names ?e)" and h2: "''B'' \<noteq> init_state_name ?e"
    by (simp_all add: state_names_def sample_exploration_def)
  from delete_state_redirects_to_container [OF h1 h2]
  obtain e' where "delete_state ?e ''B'' = Inr e'" by blast
  moreover have "delete_state ?e ''B'' = Inr (sample_exploration ''A''
       [(''A'', sample_state (Some ''TextInput'') [''A''] (Some ''A'') [''A''])] [])"
    by (simp add: delete_state_def state_names_def sample_exploration_def sample_state_def
          redirect_state_def map_all_outcomes_def redirect_def outcome_to_def fallback_to_def)
  ultimately show ?thesis using h1 h2 by simp
qed
















section \<open>Properties of the reachability check\<close>

lemma set_enqueue_dests:
  "set (enqueue_dests P Q outs) = set Q \<union> (dest ` set outs - set P)"
  by (induction P Q outs rule: enqueue_dests.induct) auto

lemma successors_non_terminal:
  "map_of sts c = Some st \<Longrightarrow> is_terminal registry (interaction st) = Inr False \<Longrightarrow>
   successors registry sts c = dest ` set (get_all_outcomes (interaction st))"
  by (simp add: successors_def)

lemma successors_terminal:
  "map_of sts c = Some st \<Longrightarrow> is_terminal registry (interaction st) = Inr True \<Longrightarrow>
   successors registry sts c = {}"
  by (simp add: successors_def)

text \<open>What the loop returns holds the processed and the queued names and is closed.\<close>

lemma reachable_loop_closed:
  "reachable_loop registry sts P Q = Inr P' \<Longrightarrow>
   set P \<union> set Q \<subseteq> set P'
   \<and> (\<forall>a \<in> set P' - set P. successors registry sts a \<subseteq> set P')"
proof (induction registry sts P Q rule: reachable_loop.induct)
  case (1 registry sts P)
  then show ?case by simp
next
  case (2 registry sts P c Q)
  show ?case
  proof (cases "c \<in> set P")
    case True
    then show ?thesis using 2 by auto
  next
    case False
    from False "2.prems" obtain st where st: "map_of sts c = Some st"
      by (auto split: option.splits)
    from False "2.prems" st obtain t where t: "is_terminal registry (interaction st) = Inr t"
      by (auto split: sum.splits)
    show ?thesis
    proof (cases t)
      case True
      have r: "reachable_loop registry sts (P @ [c]) Q = Inr P'"
        using "2.prems" False st t True by simp
      have ih: "set (P @ [c]) \<union> set Q \<subseteq> set P'
                \<and> (\<forall>a \<in> set P' - set (P @ [c]). successors registry sts a \<subseteq> set P')"
        using "2.IH"(3) [OF False st t _ r] True by simp
      have "successors registry sts c = {}"
        using successors_terminal [OF st] t True by simp
      then show ?thesis using ih by auto
    next
      case nt: False
      let ?Q = "enqueue_dests (P @ [c]) Q (get_all_outcomes (interaction st))"
      have r: "reachable_loop registry sts (P @ [c]) ?Q = Inr P'"
        using "2.prems" False st t nt by simp
      have ih: "set (P @ [c]) \<union> set ?Q \<subseteq> set P'
                \<and> (\<forall>a \<in> set P' - set (P @ [c]). successors registry sts a \<subseteq> set P')"
        using "2.IH"(2) [OF False st t _ r] nt by simp
      have s: "successors registry sts c = dest ` set (get_all_outcomes (interaction st))"
        using successors_non_terminal [OF st] t nt by simp
      have "successors registry sts c \<subseteq> set P'"
        using ih unfolding s set_enqueue_dests by auto
      then show ?thesis using ih unfolding set_enqueue_dests by auto
    qed
  qed
qed

text \<open>Every name it adds is reached from a queued name, is a state, and is added once.\<close>

lemma reachable_loop_sound:
  "reachable_loop registry sts P Q = Inr P' \<Longrightarrow>
   (\<forall>n \<in> set P' - set P.
      n \<in> fst ` set sts
      \<and> (\<exists>q \<in> set Q. (q, n) \<in> {(a, b). b \<in> successors registry sts a}\<^sup>*))
   \<and> (distinct P \<longrightarrow> distinct P')"
proof (induction registry sts P Q rule: reachable_loop.induct)
  case (1 registry sts P)
  then show ?case by simp
next
  case (2 registry sts P c Q)
  let ?E = "{(a, b). b \<in> successors registry sts a}"
  show ?case
  proof (cases "c \<in> set P")
    case True
    then show ?thesis using 2 by auto
  next
    case False
    from False "2.prems" obtain st where st: "map_of sts c = Some st"
      by (auto split: option.splits)
    from False "2.prems" st obtain t where t: "is_terminal registry (interaction st) = Inr t"
      by (auto split: sum.splits)
    have ck: "c \<in> fst ` set sts"
      using st by (metis map_of_SomeD fst_conv image_eqI)
    show ?thesis
    proof (cases t)
      case True
      have r: "reachable_loop registry sts (P @ [c]) Q = Inr P'"
        using "2.prems" False st t True by simp
      have ih: "(\<forall>n \<in> set P' - set (P @ [c]).
                   n \<in> fst ` set sts \<and> (\<exists>q \<in> set Q. (q, n) \<in> ?E\<^sup>*))
                \<and> (distinct (P @ [c]) \<longrightarrow> distinct P')"
        using "2.IH"(3) [OF False st t _ r] True by simp
      show ?thesis
      proof (intro conjI ballI impI)
        fix n assume n: "n \<in> set P' - set P"
        show "n \<in> fst ` set sts" using n ih ck by auto
        show "\<exists>q \<in> set (c # Q). (q, n) \<in> ?E\<^sup>*"
        proof (cases "n = c")
          case True
          then show ?thesis by auto
        next
          case False
          then show ?thesis using n ih by auto
        qed
      next
        assume "distinct P"
        then show "distinct P'" using ih False by simp
      qed
    next
      case nt: False
      let ?Q = "enqueue_dests (P @ [c]) Q (get_all_outcomes (interaction st))"
      have r: "reachable_loop registry sts (P @ [c]) ?Q = Inr P'"
        using "2.prems" False st t nt by simp
      have ih: "(\<forall>n \<in> set P' - set (P @ [c]).
                   n \<in> fst ` set sts \<and> (\<exists>q \<in> set ?Q. (q, n) \<in> ?E\<^sup>*))
                \<and> (distinct (P @ [c]) \<longrightarrow> distinct P')"
        using "2.IH"(2) [OF False st t _ r] nt by simp
      have s: "successors registry sts c = dest ` set (get_all_outcomes (interaction st))"
        using successors_non_terminal [OF st] t nt by simp
      show ?thesis
      proof (intro conjI ballI impI)
        fix n assume n: "n \<in> set P' - set P"
        show "n \<in> fst ` set sts" using n ih ck by auto
        show "\<exists>q \<in> set (c # Q). (q, n) \<in> ?E\<^sup>*"
        proof (cases "n = c")
          case True
          then show ?thesis by auto
        next
          case False
          then obtain q where q: "q \<in> set ?Q" "(q, n) \<in> ?E\<^sup>*" using n ih by auto
          show ?thesis
          proof (cases "q \<in> set Q")
            case True
            then show ?thesis using q by auto
          next
            case False
            then have "q \<in> successors registry sts c"
              using q(1) unfolding set_enqueue_dests s by auto
            then have "(c, q) \<in> ?E" by simp
            then have "(c, n) \<in> ?E\<^sup>*" using q(2) by (rule converse_rtrancl_into_rtrancl)
            then show ?thesis by auto
          qed
        qed
      next
        assume "distinct P"
        then show "distinct P'" using ih False by simp
      qed
    qed
  qed
qed

text \<open>With every destination a state and every interaction id known, the loop returns.\<close>

lemma reachable_loop_returns:
  assumes "\<forall>(n, st) \<in> set sts. \<not> isl (is_terminal registry (interaction st))"
    and "\<forall>(n, st) \<in> set sts. dest ` set (get_all_outcomes (interaction st)) \<subseteq> fst ` set sts"
  shows "set Q \<subseteq> fst ` set sts \<Longrightarrow> \<exists>P'. reachable_loop registry sts P Q = Inr P'"
  using assms
proof (induction registry sts P Q rule: reachable_loop.induct)
  case (1 registry sts P)
  then show ?case by simp
next
  case (2 registry sts P c Q)
  show ?case
  proof (cases "c \<in> set P")
    case True
    then show ?thesis using 2 by auto
  next
    case False
    from "2.prems"(1) obtain st where st: "map_of sts c = Some st"
      by (metis list.set_intros(1) map_of_eq_None_iff not_None_eq subsetD)
    then have mem: "(c, st) \<in> set sts" by (rule map_of_SomeD)
    from "2.prems"(2) mem obtain t where t: "is_terminal registry (interaction st) = Inr t"
      by (cases "is_terminal registry (interaction st)") auto
    have outs: "dest ` set (get_all_outcomes (interaction st)) \<subseteq> fst ` set sts"
      using "2.prems"(3) mem by fastforce
    show ?thesis
    proof (cases t)
      case True
      have "\<exists>P'. reachable_loop registry sts (P @ [c]) Q = Inr P'"
        using "2.IH"(3) [OF False st t _ _ "2.prems"(2,3)] True "2.prems"(1) by simp
      then show ?thesis using False st t True by simp
    next
      case nt: False
      let ?Q = "enqueue_dests (P @ [c]) Q (get_all_outcomes (interaction st))"
      have "set ?Q \<subseteq> fst ` set sts"
        unfolding set_enqueue_dests using outs "2.prems"(1) by auto
      then have "\<exists>P'. reachable_loop registry sts (P @ [c]) ?Q = Inr P'"
        using "2.IH"(2) [OF False st t _ _ "2.prems"(2,3)] nt by simp
      then show ?thesis using False st t nt by simp
    qed
  qed
qed

lemma closed_set_holds_reachable:
  assumes "i \<in> S" and "\<forall>a \<in> S. succ a \<subseteq> S" and "(i, n) \<in> {(a, b). b \<in> succ a}\<^sup>*"
  shows "n \<in> S"
  using assms(3)
proof (induction rule: rtrancl_induct)
  case base
  show ?case by (rule assms(1))
next
  case (step a b)
  from step.hyps(2) have "b \<in> succ a" by simp
  moreover from assms(2) step.IH have "succ a \<subseteq> S" by (rule bspec)
  ultimately show ?case by (rule subsetD [rotated])
qed

lemma all_listed_iff:
  assumes "distinct names" and "distinct P'" and "set P' \<subseteq> set names"
  shows "length names \<noteq> length P' \<longleftrightarrow> \<not> set names \<subseteq> set P'"
proof -
  have l: "length names = card (set names)" "length P' = card (set P')"
    using assms(1,2) by (simp_all add: distinct_card)
  show ?thesis
  proof
    assume "length names \<noteq> length P'"
    then have "set P' \<noteq> set names" using l by auto
    then show "\<not> set names \<subseteq> set P'" using assms(3) by simp
  next
    assume "\<not> set names \<subseteq> set P'"
    then have "set P' \<subset> set names" using assms(3) by (simp add: psubset_eq)
    then have "card (set P') < card (set names)" by (intro psubset_card_mono) simp_all
    then show "length names \<noteq> length P'" using l by simp
  qed
qed

lemma reachable_loop_result:
  assumes "init_state_name e \<in> set (state_names e)"
    and "\<forall>(n, st) \<in> set (states e). \<not> isl (is_terminal registry (interaction st))"
    and "\<forall>(n, st) \<in> set (states e).
           dest ` set (get_all_outcomes (interaction st)) \<subseteq> set (state_names e)"
  shows "\<exists>P'. reachable_loop registry (states e) [] [init_state_name e] = Inr P'
           \<and> set P' = reachable_states registry e \<and> distinct P'
           \<and> set P' \<subseteq> set (state_names e)"
proof -
  let ?E = "{(a, b). b \<in> successors registry (states e) a}"
  have q: "set [init_state_name e] \<subseteq> fst ` set (states e)"
    using assms(1) by (simp add: state_names_def)
  have d: "\<forall>(n, st) \<in> set (states e).
             dest ` set (get_all_outcomes (interaction st)) \<subseteq> fst ` set (states e)"
    using assms(3) by (simp add: state_names_def)
  from reachable_loop_returns [OF assms(2) d q, of "[]"]
  obtain P' where r: "reachable_loop registry (states e) [] [init_state_name e] = Inr P'"
    by (elim exE)
  from reachable_loop_closed [OF r]
  have init: "init_state_name e \<in> set P'"
    and closed: "\<forall>a \<in> set P'. successors registry (states e) a \<subseteq> set P'"
    by simp_all
  from reachable_loop_sound [OF r]
  have sound: "\<forall>n \<in> set P'. n \<in> fst ` set (states e) \<and> (init_state_name e, n) \<in> ?E\<^sup>*"
    and dist: "distinct P'"
    by simp_all
  have eq: "set P' = reachable_states registry e"
  proof (rule set_eqI)
    fix n
    show "n \<in> set P' \<longleftrightarrow> n \<in> reachable_states registry e"
      unfolding reachable_states_def mem_Collect_eq
    proof
      assume "n \<in> set P'"
      with sound show "(init_state_name e, n) \<in> ?E\<^sup>*" by blast
    next
      assume "(init_state_name e, n) \<in> ?E\<^sup>*"
      with init closed show "n \<in> set P'" by (rule closed_set_holds_reachable)
    qed
  qed
  have sub: "set P' \<subseteq> set (state_names e)"
  proof
    fix n assume "n \<in> set P'"
    with sound have "n \<in> fst ` set (states e)" by blast
    then show "n \<in> set (state_names e)" by (simp add: state_names_def)
  qed
  from r eq dist sub show ?thesis by (intro exI conjI)
qed

text \<open>
  Claim C3, as the code has it. On an exploration whose state names are distinct, whose
  initial state is a state, whose interaction ids the registry knows and whose outcome
  destinations are all states, \<^verbatim>\<open>_verify_all_states_reachable\<close> returns normally exactly
  when every state is reachable from \<^verbatim>\<open>init_state_name\<close> along the outcomes (answer-group,
  default and fallback) of non-terminal states; otherwise it raises one
  \<^verbatim>\<open>ValidationError\<close> whose message joins, with \<^verbatim>\<open>', '\<close>, the names of exactly the
  unreachable states in the order in which \<^verbatim>\<open>list\<close> lists that set; the names are not
  sorted. For \<open>A\<close> (initial) leading to \<open>B\<close>, \<open>B\<close> to the terminal \<open>C\<close> and an
  unreferenced \<open>D\<close>, the error names exactly \<open>D\<close>.
\<close>

theorem verify_all_states_reachable_lists_unreachable:
  assumes "distinct (state_names e)"
    and "init_state_name e \<in> set (state_names e)"
    and "\<forall>(n, st) \<in> set (states e). \<not> isl (is_terminal registry (interaction st))"
    and "\<forall>(n, st) \<in> set (states e).
           dest ` set (get_all_outcomes (interaction st)) \<subseteq> set (state_names e)"
  shows "verify_all_states_reachable registry list_of_set e
           = (if set (state_names e) \<subseteq> reachable_states registry e then Inr ()
              else Inl (ValidationError
                     (''The following states are not reachable from the initial state: ''
                      @ join '', ''
                          (list_of_set (set (state_names e) - reachable_states registry e)))))
         \<and> verify_all_states_reachable sample_registry
             (list_in_order [''A'', ''C'', ''B'', ''D'']) unreachable_D_exploration
           = Inl (ValidationError
                    ''The following states are not reachable from the initial state: D'')"
proof
  from reachable_loop_result [OF assms(2,3,4)]
  obtain P' where r: "reachable_loop registry (states e) [] [init_state_name e] = Inr P'"
    and s: "set P' = reachable_states registry e" and d: "distinct P'"
    and k: "set P' \<subseteq> set (state_names e)"
    by (elim exE conjE)
  have "length (state_names e) \<noteq> length P' \<longleftrightarrow> \<not> set (state_names e) \<subseteq> set P'"
    by (rule all_listed_iff [OF assms(1) d k])
  then have l: "length (states e) \<noteq> length P'
                  \<longleftrightarrow> \<not> set (state_names e) \<subseteq> reachable_states registry e"
    unfolding s by (simp add: state_names_def)
  show "verify_all_states_reachable registry list_of_set e
           = (if set (state_names e) \<subseteq> reachable_states registry e then Inr ()
              else Inl (ValidationError
                     (''The following states are not reachable from the initial state: ''
                      @ join '', ''
                          (list_of_set (set (state_names e) - reachable_states registry e)))))"
    unfolding verify_all_states_reachable_def r sum.case l s by simp
next
  show "verify_all_states_reachable sample_registry
             (list_in_order [''A'', ''C'', ''B'', ''D'']) unreachable_D_exploration
           = Inl (ValidationError
                    ''The following states are not reachable from the initial state: D'')"
    by (simp add: verify_all_states_reachable_def unreachable_D_exploration_def
          sample_exploration_def sample_state_def sample_registry_def is_terminal_def
          get_all_outcomes_def get_all_non_fallback_outcomes_def outcome_to_def
          state_names_def list_in_order_def)
qed

theorem verify_all_states_reachable_lists_unreachable_witness:
  "distinct (state_names unreachable_D_exploration)
   \<and> init_state_name unreachable_D_exploration \<in> set (state_names unreachable_D_exploration)
   \<and> verify_all_states_reachable sample_registry (list_in_order [''A'', ''C'', ''B'', ''D''])
        unreachable_D_exploration
      = Inl (ValidationError
               ''The following states are not reachable from the initial state: D'')
   \<and> \<not> set (state_names unreachable_D_exploration)
          \<subseteq> reachable_states sample_registry unreachable_D_exploration"
proof -
  let ?e = unreachable_D_exploration
  have h1: "distinct (state_names ?e)" and h2: "init_state_name ?e \<in> set (state_names ?e)"
    by (simp_all add: unreachable_D_exploration_def sample_exploration_def state_names_def)
  have h3: "\<forall>(n, st) \<in> set (states ?e). \<not> isl (is_terminal sample_registry (interaction st))"
    by (simp add: unreachable_D_exploration_def sample_exploration_def sample_state_def
          is_terminal_def sample_registry_def)
  have h4: "\<forall>(n, st) \<in> set (states ?e).
              dest ` set (get_all_outcomes (interaction st)) \<subseteq> set (state_names ?e)"
    by (simp add: unreachable_D_exploration_def sample_exploration_def sample_state_def
          state_names_def get_all_outcomes_def get_all_non_fallback_outcomes_def outcome_to_def)
  note t = verify_all_states_reachable_lists_unreachable
             [OF h1 h2 h3 h4, of "list_in_order [''A'', ''C'', ''B'', ''D'']"]
  from t have v: "verify_all_states_reachable sample_registry
                    (list_in_order [''A'', ''C'', ''B'', ''D'']) ?e
      = Inl (ValidationError
               ''The following states are not reachable from the initial state: D'')"
    by (rule conjunct2)
  from t have "verify_all_states_reachable sample_registry
                    (list_in_order [''A'', ''C'', ''B'', ''D'']) ?e
      = (if set (state_names ?e) \<subseteq> reachable_states sample_registry ?e then Inr ()
         else Inl (ValidationError
                (''The following states are not reachable from the initial state: ''
                 @ join '', ''
                     (list_in_order [''A'', ''C'', ''B'', ''D'']
                        (set (state_names ?e) - reachable_states sample_registry ?e)))))"
    by (rule conjunct1)
  with v have n: "\<not> set (state_names ?e) \<subseteq> reachable_states sample_registry ?e"
    by (auto split: if_splits)
  from h1 h2 v n show ?thesis by (intro conjI)
qed

text \<open>
  Claim C3 as it is stated fails in the order of the names. With \<open>a\<close> initial and \<open>b\<close>
  and \<open>c\<close> unreachable, the names are listed as the set \<^verbatim>\<open>{'b', 'c'}\<close> iterates. CPython
  2.7 stores \<^verbatim>\<open>'c'\<close> in slot 2 and \<^verbatim>\<open>'b'\<close> in slot 3 of the set's table (the low three
  bits of their hashes 12672038114 and 12544037731), so the message ends in \<^verbatim>\<open>c, b\<close>.
\<close>

theorem verify_all_states_reachable_not_sorted:
  "verify_all_states_reachable sample_registry (list_in_order [''a'', ''c'', ''b''])
     self_loops_exploration
   = Inl (ValidationError
            ''The following states are not reachable from the initial state: c, b'')
   \<and> \<not> sorted [''c'', ''b'']"
  by (simp add: verify_all_states_reachable_def self_loops_exploration_def
        sample_exploration_def sample_state_def sample_registry_def is_terminal_def
        get_all_outcomes_def get_all_non_fallback_outcomes_def outcome_to_def
        state_names_def list_in_order_def)

section \<open>Properties of the dead-end check\<close>

lemma set_enqueue_predecessors:
  "set (enqueue_predecessors c P Q sts)
     = set Q \<union> {n. \<exists>st. (n, st) \<in> set sts \<and> n \<notin> set P
                       \<and> c \<in> dest ` set (get_all_non_fallback_outcomes (interaction st))}"
  by (induction c P Q sts rule: enqueue_predecessors.induct) auto

text \<open>
  What the loop returns holds the processed and the queued names, and with a name it
  added every state that has a non-fallback outcome to that name.
\<close>

lemma dead_end_loop_closed:
  "set P \<union> set Q \<subseteq> set (dead_end_loop sts P Q)
   \<and> (\<forall>a \<in> set (dead_end_loop sts P Q) - set P. \<forall>n st.
          (n, st) \<in> set sts
          \<and> a \<in> dest ` set (get_all_non_fallback_outcomes (interaction st))
          \<longrightarrow> n \<in> set (dead_end_loop sts P Q))"
proof (induction sts P Q rule: dead_end_loop.induct)
  case (1 sts P)
  show ?case by simp
next
  case (2 sts P c Q)
  show ?case
  proof (cases "c \<in> set P")
    case True
    then show ?thesis using "2.IH"(1) by auto
  next
    case False
    let ?Q = "enqueue_predecessors c (P @ [c]) Q sts"
    let ?R = "dead_end_loop sts (P @ [c]) ?Q"
    have eq: "dead_end_loop sts P (c # Q) = ?R" using False by simp
    have ih: "set (P @ [c]) \<union> set ?Q \<subseteq> set ?R
              \<and> (\<forall>a \<in> set ?R - set (P @ [c]). \<forall>n st.
                     (n, st) \<in> set sts
                     \<and> a \<in> dest ` set (get_all_non_fallback_outcomes (interaction st))
                     \<longrightarrow> n \<in> set ?R)"
      by (rule "2.IH"(2) [OF False])
    have pre: "n \<in> set ?R"
      if "(n, st) \<in> set sts"
        and "c \<in> dest ` set (get_all_non_fallback_outcomes (interaction st))" for n st
    proof (cases "n \<in> set (P @ [c])")
      case True
      then show ?thesis using ih by blast
    next
      case False
      then have "n \<in> set ?Q" unfolding set_enqueue_predecessors using that by blast
      then show ?thesis using ih by blast
    qed
    have "set P \<union> set (c # Q) \<subseteq> set ?R"
      using ih unfolding set_enqueue_predecessors by auto
    moreover have "\<forall>a \<in> set ?R - set P. \<forall>n st.
                     (n, st) \<in> set sts
                     \<and> a \<in> dest ` set (get_all_non_fallback_outcomes (interaction st))
                     \<longrightarrow> n \<in> set ?R"
    proof (intro ballI allI impI)
      fix a n st
      assume a: "a \<in> set ?R - set P"
        and n: "(n, st) \<in> set sts
                \<and> a \<in> dest ` set (get_all_non_fallback_outcomes (interaction st))"
      show "n \<in> set ?R"
      proof (cases "a = c")
        case True
        then show ?thesis using pre n by blast
      next
        case False
        then have "a \<in> set ?R - set (P @ [c])" using a by simp
        then show ?thesis using ih n by blast
      qed
    qed
    ultimately show ?thesis unfolding eq by (rule conjI)
  qed
qed

text \<open>Every name it adds can be completed, is queued or a state, and is added once.\<close>

lemma dead_end_loop_sound:
  "(set P \<union> set Q \<subseteq> can_complete registry sts
      \<longrightarrow> set (dead_end_loop sts P Q) \<subseteq> can_complete registry sts)
   \<and> set (dead_end_loop sts P Q) \<subseteq> set P \<union> set Q \<union> fst ` set sts
   \<and> (distinct P \<longrightarrow> distinct (dead_end_loop sts P Q))"
proof (induction sts P Q rule: dead_end_loop.induct)
  case (1 sts P)
  show ?case by simp
next
  case (2 sts P c Q)
  show ?case
  proof (cases "c \<in> set P")
    case True
    then show ?thesis using "2.IH"(1) by auto
  next
    case False
    let ?Q = "enqueue_predecessors c (P @ [c]) Q sts"
    let ?R = "dead_end_loop sts (P @ [c]) ?Q"
    have eq: "dead_end_loop sts P (c # Q) = ?R" using False by simp
    have ih: "(set (P @ [c]) \<union> set ?Q \<subseteq> can_complete registry sts
                 \<longrightarrow> set ?R \<subseteq> can_complete registry sts)
              \<and> set ?R \<subseteq> set (P @ [c]) \<union> set ?Q \<union> fst ` set sts
              \<and> (distinct (P @ [c]) \<longrightarrow> distinct ?R)"
      by (rule "2.IH"(2) [OF False])
    have q: "set ?Q \<subseteq> set Q \<union> fst ` set sts"
      unfolding set_enqueue_predecessors by force
    have 1: "set ?R \<subseteq> can_complete registry sts"
      if all: "set P \<union> set (c # Q) \<subseteq> can_complete registry sts"
    proof -
      have c: "c \<in> can_complete registry sts" using all by simp
      have "set ?Q \<subseteq> can_complete registry sts"
      proof
        fix n assume "n \<in> set ?Q"
        then consider "n \<in> set Q"
          | st where "(n, st) \<in> set sts"
              "c \<in> dest ` set (get_all_non_fallback_outcomes (interaction st))"
          unfolding set_enqueue_predecessors by blast
        then show "n \<in> can_complete registry sts"
        proof cases
          case 1
          then show ?thesis using all by auto
        next
          case 2
          from 2(2) obtain out where
            "out \<in> set (get_all_non_fallback_outcomes (interaction st))" "dest out = c"
            by blast
          with 2(1) c show ?thesis by (metis can_complete.step)
        qed
      qed
      then have "set (P @ [c]) \<union> set ?Q \<subseteq> can_complete registry sts"
        using all by simp
      then show ?thesis using ih by blast
    qed
    have 2: "set ?R \<subseteq> set P \<union> set (c # Q) \<union> fst ` set sts"
      using ih q by auto
    have 3: "distinct ?R" if "distinct P"
      using ih that False by simp
    show ?thesis unfolding eq using 1 2 3 by blast
  qed
qed

lemma terminal_state_names_set:
  "terminal_state_names registry sts = Inr q \<Longrightarrow>
   set q = {n. \<exists>st. (n, st) \<in> set sts \<and> is_terminal registry (interaction st) = Inr True}"
proof (induction sts arbitrary: q)
  case Nil
  then show ?case by simp
next
  case (Cons p sts)
  obtain n st where p: "p = (n, st)" by (cases p)
  from Cons.prems obtain t q' where
    t: "is_terminal registry (interaction st) = Inr t"
    and q': "terminal_state_names registry sts = Inr q'"
    and q: "q = (if t then n # q' else q')"
    unfolding p by (auto split: sum.splits)
  have ih: "set q' = {n. \<exists>st. (n, st) \<in> set sts
                         \<and> is_terminal registry (interaction st) = Inr True}"
    by (rule Cons.IH [OF q'])
  show ?case unfolding p q using ih t by (cases t) auto
qed

lemma terminal_state_names_returns:
  "\<forall>(n, st) \<in> set sts. \<not> isl (is_terminal registry (interaction st)) \<Longrightarrow>
   \<exists>q. terminal_state_names registry sts = Inr q"
proof (induction sts)
  case Nil
  then show ?case by simp
next
  case (Cons p sts)
  obtain n st where p: "p = (n, st)" by (cases p)
  from Cons.prems obtain t where t: "is_terminal registry (interaction st) = Inr t"
    unfolding p by (cases "is_terminal registry (interaction st)") auto
  from Cons obtain q where "terminal_state_names registry sts = Inr q" by auto
  then show ?case unfolding p using t by simp
qed

text \<open>
  An interaction id that the registry does not know makes the first loop of
  \<^verbatim>\<open>_verify_no_dead_ends\<close> raise at the \<^verbatim>\<open>is_terminal\<close> lookup: the check then ends in
  that \<^verbatim>\<open>KeyError\<close>, whatever the graph is.
\<close>

lemma is_terminal_error_class:
  "is_terminal registry i = Inl err \<Longrightarrow> \<exists>k. err = KeyError k"
  by (auto simp: is_terminal_def split: option.splits if_splits)

lemma terminal_state_names_error_class:
  "terminal_state_names registry sts = Inl err \<Longrightarrow> \<exists>k. err = KeyError k"
proof (induction sts)
  case Nil
  then show ?case by simp
next
  case (Cons p sts)
  obtain n st where p: "p = (n, st)" by (cases p)
  show ?case
  proof (cases "is_terminal registry (interaction st)")
    case (Inl e)
    then have "err = e" using Cons.prems unfolding p by simp
    then show ?thesis using is_terminal_error_class [OF Inl] by simp
  next
    case (Inr t)
    then have "terminal_state_names registry sts = Inl err"
      using Cons.prems unfolding p by (auto split: sum.splits)
    then show ?thesis by (rule Cons.IH)
  qed
qed

lemma terminal_state_names_raises:
  "(n, st) \<in> set sts \<Longrightarrow> isl (is_terminal registry (interaction st)) \<Longrightarrow>
   isl (terminal_state_names registry sts)"
  by (induction sts) (auto split: sum.splits)

lemma verify_no_dead_ends_unknown_id:
  assumes "(n, st) \<in> set (states e)" and "isl (is_terminal registry (interaction st))"
  shows "\<exists>k. verify_no_dead_ends registry list_of_set e = Inl (KeyError k)"
proof -
  from terminal_state_names_raises [OF assms]
  obtain err where e: "terminal_state_names registry (states e) = Inl err"
    by (cases "terminal_state_names registry (states e)") auto
  from terminal_state_names_error_class [OF e] obtain k where "err = KeyError k" by (elim exE)
  then show ?thesis using e by (simp add: verify_no_dead_ends_def)
qed

text \<open>
  With \<open>A\<close> of the unknown interaction id \<^verbatim>\<open>Foo\<close> leading to the terminal \<open>B\<close>, the
  check raises \<^verbatim>\<open>KeyError\<close> although both states can be completed.
\<close>

lemma verify_no_dead_ends_unknown_id_example:
  "verify_no_dead_ends sample_registry (list_in_order [''A'', ''B''])
     (sample_exploration ''A''
        [(''A'', sample_state (Some ''Foo'') [] (Some ''B'') []),
         (''B'', sample_state (Some ''EndExploration'') [] None [])] [])
   = Inl (KeyError (JStr ''Foo''))"
  by (simp add: verify_no_dead_ends_def sample_exploration_def sample_state_def
        sample_registry_def is_terminal_def)

lemma dead_end_loop_result:
  assumes "terminal_state_names registry sts = Inr q"
  shows "set (dead_end_loop sts [] q) = can_complete registry sts"
    and "distinct (dead_end_loop sts [] q)"
    and "set (dead_end_loop sts [] q) \<subseteq> fst ` set sts"
proof -
  let ?R = "dead_end_loop sts [] q"
  have tq: "set q = {n. \<exists>st. (n, st) \<in> set sts
                        \<and> is_terminal registry (interaction st) = Inr True}"
    by (rule terminal_state_names_set [OF assms])
  have q_cc: "set q \<subseteq> can_complete registry sts"
    unfolding tq by (auto intro: can_complete.terminal)
  have q_keys: "set q \<subseteq> fst ` set sts"
    unfolding tq by force
  note s = dead_end_loop_sound [of "[]" q registry sts]
  from s q_cc have sound: "set ?R \<subseteq> can_complete registry sts" by simp
  from s show "distinct ?R" by simp
  from s q_keys show "set ?R \<subseteq> fst ` set sts" by auto
  note c = dead_end_loop_closed [of "[]" q sts]
  from c have seeds: "set q \<subseteq> set ?R" by simp
  from c have closed: "\<And>a n st. a \<in> set ?R \<Longrightarrow> (n, st) \<in> set sts \<Longrightarrow>
                         a \<in> dest ` set (get_all_non_fallback_outcomes (interaction st)) \<Longrightarrow>
                         n \<in> set ?R"
    by simp blast
  have complete: "n \<in> set ?R" if "n \<in> can_complete registry sts" for n
    using that
  proof (induction rule: can_complete.induct)
    case (terminal n st)
    then have "n \<in> set q" unfolding tq by blast
    then show ?case using seeds by blast
  next
    case (step n st out)
    from step.hyps(2) have "dest out \<in> dest ` set (get_all_non_fallback_outcomes (interaction st))"
      by (rule imageI)
    with step.IH step.hyps(1) show ?case by (rule closed)
  qed
  show "set ?R = can_complete registry sts"
    using sound complete by blast
qed

text \<open>
  Claim C4, as the code has it. On an exploration whose state names are distinct and whose
  interaction ids the registry knows, \<^verbatim>\<open>_verify_no_dead_ends\<close> returns normally exactly
  when every state can be completed, that is, reaches a terminal state along non-fallback
  outcomes (answer-group and default outcomes; fallback outcomes do not count); otherwise
  it raises one \<^verbatim>\<open>ValidationError\<close> whose message joins, with \<^verbatim>\<open>', '\<close>, the names of
  exactly the states that cannot be completed, in the order in which \<^verbatim>\<open>list\<close> lists that
  set; the names are not sorted. For \<open>A\<close> (initial) and \<open>B\<close> leading to each other with
  no terminal state, the error names both \<open>A\<close> and \<open>B\<close>. The condition on the
  interaction ids is needed: with an id the registry does not know the check raises
  \<^verbatim>\<open>KeyError\<close> instead (\<open>verify_no_dead_ends_unknown_id\<close>); \<^verbatim>\<open>validate\<close> rejects such an
  id before it calls the check.
\<close>

theorem verify_no_dead_ends_lists_dead_ends:
  assumes "distinct (state_names e)"
    and "\<forall>(n, st) \<in> set (states e). \<not> isl (is_terminal registry (interaction st))"
  shows "verify_no_dead_ends registry list_of_set e
           = (if set (state_names e) \<subseteq> can_complete registry (states e) then Inr ()
              else Inl (ValidationError
                     (''It is impossible to complete the exploration from the ''
                      @ ''following states: ''
                      @ join '', ''
                          (list_of_set
                             (set (state_names e) - can_complete registry (states e))))))
         \<and> verify_no_dead_ends sample_registry (list_in_order [''A'', ''B'']) cycle_exploration
           = Inl (ValidationError
                    (''It is impossible to complete the exploration from the ''
                     @ ''following states: A, B''))"
proof
  from terminal_state_names_returns [OF assms(2)]
  obtain q where q: "terminal_state_names registry (states e) = Inr q" by (elim exE)
  let ?R = "dead_end_loop (states e) [] q"
  have s: "set ?R = can_complete registry (states e)" and d: "distinct ?R"
    and k: "set ?R \<subseteq> set (state_names e)"
    using dead_end_loop_result [OF q] by (simp_all add: state_names_def)
  have "length (state_names e) \<noteq> length ?R \<longleftrightarrow> \<not> set (state_names e) \<subseteq> set ?R"
    by (rule all_listed_iff [OF assms(1) d k])
  then have l: "length (states e) \<noteq> length ?R
                  \<longleftrightarrow> \<not> set (state_names e) \<subseteq> can_complete registry (states e)"
    unfolding s by (simp add: state_names_def)
  show "verify_no_dead_ends registry list_of_set e
           = (if set (state_names e) \<subseteq> can_complete registry (states e) then Inr ()
              else Inl (ValidationError
                     (''It is impossible to complete the exploration from the ''
                      @ ''following states: ''
                      @ join '', ''
                          (list_of_set
                             (set (state_names e) - can_complete registry (states e))))))"
    unfolding verify_no_dead_ends_def q sum.case Let_def l s by simp
next
  show "verify_no_dead_ends sample_registry (list_in_order [''A'', ''B'']) cycle_exploration
           = Inl (ValidationError
                    (''It is impossible to complete the exploration from the ''
                     @ ''following states: A, B''))"
    by (simp add: verify_no_dead_ends_def cycle_exploration_def
          sample_exploration_def sample_state_def sample_registry_def is_terminal_def
          get_all_non_fallback_outcomes_def outcome_to_def
          state_names_def list_in_order_def)
qed

theorem verify_no_dead_ends_lists_dead_ends_witness:
  "distinct (state_names cycle_exploration)
   \<and> verify_no_dead_ends sample_registry (list_in_order [''A'', ''B'']) cycle_exploration
      = Inl (ValidationError
               (''It is impossible to complete the exploration from the ''
                @ ''following states: A, B''))
   \<and> \<not> set (state_names cycle_exploration)
          \<subseteq> can_complete sample_registry (states cycle_exploration)"
proof -
  let ?e = cycle_exploration
  have h1: "distinct (state_names ?e)"
    by (simp add: cycle_exploration_def sample_exploration_def state_names_def)
  have h2: "\<forall>(n, st) \<in> set (states ?e). \<not> isl (is_terminal sample_registry (interaction st))"
    by (simp add: cycle_exploration_def sample_exploration_def sample_state_def
          is_terminal_def sample_registry_def)
  note t = verify_no_dead_ends_lists_dead_ends
             [OF h1 h2, of "list_in_order [''A'', ''B'']"]
  from t have v: "verify_no_dead_ends sample_registry (list_in_order [''A'', ''B'']) ?e
      = Inl (ValidationError
               (''It is impossible to complete the exploration from the ''
                @ ''following states: A, B''))"
    by (rule conjunct2)
  from t have "verify_no_dead_ends sample_registry (list_in_order [''A'', ''B'']) ?e
      = (if set (state_names ?e) \<subseteq> can_complete sample_registry (states ?e) then Inr ()
         else Inl (ValidationError
                (''It is impossible to complete the exploration from the ''
                 @ ''following states: ''
                 @ join '', ''
                     (list_in_order [''A'', ''B'']
                        (set (state_names ?e) - can_complete sample_registry (states ?e))))))"
    by (rule conjunct1)
  with v have n: "\<not> set (state_names ?e) \<subseteq> can_complete sample_registry (states ?e)"
    by (auto split: if_splits)
  from h1 v n show ?thesis by (intro conjI)
qed

text \<open>
  Claim C4 as it is stated fails in the order of the names. With \<open>a\<close>, \<open>b\<close> and \<open>c\<close>
  leading to themselves only and no terminal state, all three are listed as the set
  \<^verbatim>\<open>{'a', 'b', 'c'}\<close> iterates, which in CPython 2.7 is \<^verbatim>\<open>a, c, b\<close> (slots 0, 2 and 3 of
  the set's table).
\<close>

theorem verify_no_dead_ends_not_sorted:
  "verify_no_dead_ends sample_registry (list_in_order [''a'', ''c'', ''b''])
     self_loops_exploration
   = Inl (ValidationError
            (''It is impossible to complete the exploration from the ''
             @ ''following states: a, c, b''))
   \<and> \<not> sorted [''a'', ''c'', ''b'']"
  by (simp add: verify_no_dead_ends_def self_loops_exploration_def
        sample_exploration_def sample_state_def sample_registry_def is_terminal_def
        get_all_non_fallback_outcomes_def outcome_to_def
        state_names_def list_in_order_def)

end
